theory Spec2Isabelle
  imports Main "HOL-Library.AList"
begin

section \<open>wordpirate: a WordPress to static-site migration script\<close>

text \<open>
  The program is one Python file, \<^verbatim>\<open>wordpirate.py\<close>: the dataclass \<^verbatim>\<open>Post\<close>
  (a document and its rendering), the dataclass \<^verbatim>\<open>Extractor\<close> (HTTP requests, the
  paginated fetcher, the two memoized reference dictionaries, the normalizer), the
  dataclass \<^verbatim>\<open>Constructor\<close> (the file writer) and the driving loop.

  Conventions of the embedding.
  \<^item> A Python \<^verbatim>\<open>str\<close> is a \<open>string\<close>; each \<open>char\<close> stands for one code point
    (0 to 255). Code points above 255 are outside the model.
  \<^item> A value parsed from JSON is a \<open>json\<close>. Numbers are Python integers; numbers
    with a fraction or an exponent (Python floats) are outside the model.
  \<^item> An exception is a value of \<open>error\<close>; a call either \<open>Returns\<close> a value or
    \<open>Raises\<close> an error, and in both cases hands back the world as it left it.
  \<^item> The \<^verbatim>\<open>while\<close> loop of the fetcher may run forever. It is a
    \<^theory_text>\<open>partial_function (option)\<close>: \<open>None\<close> is a run that never ends.
  \<^item> Library functions are modelled from their documentation where a claim needs
    their result (\<^verbatim>\<open>json.dumps\<close>, \<^verbatim>\<open>datetime.fromisoformat\<close>,
    \<^verbatim>\<open>datetime.isoformat\<close>, \<^verbatim>\<open>pytz.UTC.localize\<close>, \<^verbatim>\<open>Path.mkdir\<close>,
    \<^verbatim>\<open>Path.write_text\<close>), and taken as a parameter otherwise
    (\<^verbatim>\<open>html.unescape\<close>, the network behind \<^verbatim>\<open>requests.get\<close>).
\<close>

subsection \<open>JSON values, Python errors and dictionaries\<close>

datatype json =
    JNull
  | JBool bool
  | JNum int
  | JStr string
  | JList "json list"
  | JObj "(string \<times> json) list"

text \<open>
  \<open>JObj\<close> lists the items of the parsed \<^verbatim>\<open>dict\<close> in order; a lookup takes the
  first item with the key.

  The exceptions the program can meet. \<open>AnnotationMismatch\<close> is not a Python
  exception: the model stops with it where a value is about to be stored in a \<^verbatim>\<open>Post\<close>
  field whose annotation it does not have (Python does not check annotations and would
  go on with an ill-typed \<^verbatim>\<open>Post\<close>).
\<close>

datatype error =
    KeyError json
  | TypeError
  | ValueError
  | RequestException
  | FileNotFoundError
  | FileExistsError
  | NotADirectoryError
  | IsADirectoryError
  | AnnotationMismatch

text \<open>\<^verbatim>\<open>obj[key]\<close> with a string literal as key: only a \<^verbatim>\<open>dict\<close> accepts it.\<close>

fun subscript :: "json \<Rightarrow> string \<Rightarrow> error + json" where
  "subscript (JObj items) k =
     (case map_of items k of None \<Rightarrow> Inl (KeyError (JStr k)) | Some v \<Rightarrow> Inr v)"
| "subscript _ k = Inl TypeError"

text \<open>
  A Python \<^verbatim>\<open>dict\<close> keyed by JSON values, in insertion order. Lists and dicts are
  unhashable; \<^verbatim>\<open>True\<close> and \<^verbatim>\<open>False\<close> are the keys \<^verbatim>\<open>1\<close> and \<^verbatim>\<open>0\<close>.
\<close>

type_synonym pydict = "(json \<times> json) list"

fun py_hash_key :: "json \<Rightarrow> error + json" where
  "py_hash_key (JList xs) = Inl TypeError"
| "py_hash_key (JObj items) = Inl TypeError"
| "py_hash_key (JBool b) = Inr (JNum (if b then 1 else 0))"
| "py_hash_key k = Inr k"

definition dict_setitem :: "pydict \<Rightarrow> json \<Rightarrow> json \<Rightarrow> error + pydict" where
  "dict_setitem d k v =
     (case py_hash_key k of Inl e \<Rightarrow> Inl e | Inr k' \<Rightarrow> Inr (AList.update k' v d))"

definition dict_getitem :: "pydict \<Rightarrow> json \<Rightarrow> error + json" where
  "dict_getitem d k =
     (case py_hash_key k of
        Inl e \<Rightarrow> Inl e
      | Inr k' \<Rightarrow> (case map_of d k' of None \<Rightarrow> Inl (KeyError k) | Some v \<Rightarrow> Inr v))"

text \<open>Iterating over a JSON value, as \<^verbatim>\<open>map(f, value)\<close> does.\<close>

fun py_iter :: "json \<Rightarrow> error + json list" where
  "py_iter (JList xs) = Inr xs"
| "py_iter (JStr s) = Inr (map (\<lambda>c. JStr [c]) s)"
| "py_iter (JObj items) = Inr (map (\<lambda>(k, v). JStr k) items)"
| "py_iter _ = Inl TypeError"

subsection \<open>Decimal numerals\<close>

definition digit_chars :: string where
  "digit_chars = ''0123456789''"

fun decimal :: "nat \<Rightarrow> string" where
  "decimal n = (if n < 10 then [digit_chars ! n] else decimal (n div 10) @ [digit_chars ! (n mod 10)])"

declare decimal.simps [simp del]

text \<open>\<^verbatim>\<open>"%0wd" % n\<close> for a natural number.\<close>

definition zero_pad :: "nat \<Rightarrow> nat \<Rightarrow> string" where
  "zero_pad width n = replicate (width - length (decimal n)) (CHR ''0'') @ decimal n"

definition int_repr :: "int \<Rightarrow> string" where
  "int_repr i = (if i < 0 then CHR ''-'' # decimal (nat (- i)) else decimal (nat i))"

definition digit_value :: "char \<Rightarrow> nat option" where
  "digit_value c = map_of
     [(CHR ''0'', 0), (CHR ''1'', 1), (CHR ''2'', 2), (CHR ''3'', 3), (CHR ''4'', 4),
      (CHR ''5'', 5), (CHR ''6'', 6), (CHR ''7'', 7), (CHR ''8'', 8), (CHR ''9'', 9)] c"

text \<open>A fixed run of ASCII digits, read as a number; the empty run is refused.\<close>

fun digits_from :: "nat \<Rightarrow> string \<Rightarrow> nat option" where
  "digits_from acc [] = Some acc"
| "digits_from acc (c # cs) =
     (case digit_value c of None \<Rightarrow> None | Some d \<Rightarrow> digits_from (10 * acc + d) cs)"

definition parse_digits :: "string \<Rightarrow> nat option" where
  "parse_digits s = (if s = [] then None else digits_from 0 s)"

subsection \<open>Timestamps\<close>

text \<open>
  \<^verbatim>\<open>datetime\<close> with the two kinds of \<^verbatim>\<open>tzinfo\<close> the program can meet: the UTC
  zone of \<^verbatim>\<open>pytz\<close> and the fixed offsets \<^verbatim>\<open>fromisoformat\<close> builds (an offset in
  microseconds; \<^verbatim>\<open>timezone.utc\<close> is \<open>timezone 0\<close>).
\<close>

datatype tzinfo = pytz_UTC | timezone int

record datetime =
  year :: nat
  month :: nat
  day :: nat
  hour :: nat
  minute :: nat
  second :: nat
  microsecond :: nat
  tzinfo :: "tzinfo option"

definition is_leap :: "nat \<Rightarrow> bool" where
  "is_leap y = (y mod 4 = 0 \<and> (y mod 100 \<noteq> 0 \<or> y mod 400 = 0))"

definition days_in_month :: "nat \<Rightarrow> nat \<Rightarrow> nat" where
  "days_in_month y m =
     (if m = 2 then (if is_leap y then 29 else 28)
      else if m = 4 \<or> m = 6 \<or> m = 9 \<or> m = 11 then 30 else 31)"

text \<open>The constructor \<^verbatim>\<open>datetime(...)\<close>: it refuses a field out of range.\<close>

definition new_datetime ::
  "nat \<Rightarrow> nat \<Rightarrow> nat \<Rightarrow> nat \<Rightarrow> nat \<Rightarrow> nat \<Rightarrow> nat \<Rightarrow> tzinfo option \<Rightarrow> error + datetime" where
  "new_datetime y mo d h mi s us tz =
     (if 1 \<le> y \<and> y \<le> 9999 \<and> 1 \<le> mo \<and> mo \<le> 12 \<and> 1 \<le> d \<and> d \<le> days_in_month y mo
         \<and> h \<le> 23 \<and> mi \<le> 59 \<and> s \<le> 59 \<and> us \<le> 999999
      then Inr \<lparr>year = y, month = mo, day = d, hour = h, minute = mi, second = s,
                microsecond = us, tzinfo = tz\<rparr>
      else Inl ValueError)"

text \<open>
  Modelled from the library documentation: \<^verbatim>\<open>datetime.fromisoformat\<close> of Python 3.8
  reads the format \<^verbatim>\<open>YYYY-MM-DD[*HH[:MM[:SS[.fff[fff]]]][+HH:MM[:SS[.ffffff]]]]\<close>, where
  \<^verbatim>\<open>*\<close> is any one character, and raises \<^verbatim>\<open>ValueError\<close> on anything else.
\<close>

definition two_digits :: "string \<Rightarrow> nat \<Rightarrow> nat option" where
  "two_digits s i = (if i + 2 \<le> length s then parse_digits (take 2 (drop i s)) else None)"

definition parse_isoformat_date :: "string \<Rightarrow> (nat \<times> nat \<times> nat) option" where
  "parse_isoformat_date s =
     (if length s = 10 \<and> s ! 4 = CHR ''-'' \<and> s ! 7 = CHR ''-'' then
        (case (parse_digits (take 4 s), two_digits s 5, two_digits s 8) of
           (Some y, Some m, Some d) \<Rightarrow> Some (y, m, d)
         | _ \<Rightarrow> None)
      else None)"

text \<open>\<^verbatim>\<open>HH[:MM[:SS[.fff[fff]]]]\<close>: hours, minutes, seconds, microseconds.\<close>

definition parse_hh_mm_ss_ff :: "string \<Rightarrow> (nat \<times> nat \<times> nat \<times> nat) option" where
  "parse_hh_mm_ss_ff s =
     (let n = length s in
      if n = 2 then
        (case two_digits s 0 of Some h \<Rightarrow> Some (h, 0, 0, 0) | None \<Rightarrow> None)
      else if n = 5 \<and> s ! 2 = CHR '':'' then
        (case (two_digits s 0, two_digits s 3) of
           (Some h, Some m) \<Rightarrow> Some (h, m, 0, 0)
         | _ \<Rightarrow> None)
      else if (n = 8 \<or> n = 12 \<or> n = 15) \<and> s ! 2 = CHR '':'' \<and> s ! 5 = CHR '':'' then
        (case (two_digits s 0, two_digits s 3, two_digits s 6) of
           (Some h, Some m, Some sec) \<Rightarrow>
             if n = 8 then Some (h, m, sec, 0)
             else if s ! 8 = CHR ''.'' then
               (case parse_digits (drop 9 s) of
                  Some f \<Rightarrow> Some (h, m, sec, if n = 12 then f * 1000 else f)
                | None \<Rightarrow> None)
             else None
         | _ \<Rightarrow> None)
      else None)"

definition is_sign :: "char \<Rightarrow> bool" where
  "is_sign c = (c = CHR ''+'' \<or> c = CHR ''-'')"

definition parse_isoformat_time ::
  "string \<Rightarrow> (nat \<times> nat \<times> nat \<times> nat \<times> tzinfo option) option" where
  "parse_isoformat_time s =
     (let timestr = takeWhile (\<lambda>c. \<not> is_sign c) s;
          rest = dropWhile (\<lambda>c. \<not> is_sign c) s
      in case parse_hh_mm_ss_ff timestr of
           None \<Rightarrow> None
         | Some (h, m, sec, us) \<Rightarrow>
             (case rest of
                [] \<Rightarrow> Some (h, m, sec, us, None)
              | sign # tzstr \<Rightarrow>
                  if length tzstr = 5 \<or> length tzstr = 8 \<or> length tzstr = 15 then
                    (case parse_hh_mm_ss_ff tzstr of
                       None \<Rightarrow> None
                     | Some (th, tm, ts, tus) \<Rightarrow>
                         (let off = ((int th * 60 + int tm) * 60 + int ts) * 1000000 + int tus
                          in if off = 0 then Some (h, m, sec, us, Some (timezone 0))
                             else if off < 86400000000 then
                               Some (h, m, sec, us,
                                 Some (timezone (if sign = CHR ''-'' then - off else off)))
                             else None))
                  else None))"

definition fromisoformat :: "string \<Rightarrow> error + datetime" where
  "fromisoformat s =
     (case parse_isoformat_date (take 10 s) of
        None \<Rightarrow> Inl ValueError
      | Some (y, mo, d) \<Rightarrow>
          if length s = 10 then new_datetime y mo d 0 0 0 0 None
          else (case parse_isoformat_time (drop 11 s) of
                  None \<Rightarrow> Inl ValueError
                | Some (h, mi, sec, us, tz) \<Rightarrow> new_datetime y mo d h mi sec us tz))"

text \<open>
  \<^verbatim>\<open>pytz.UTC.localize(dt)\<close>: a naive timestamp gets the UTC zone, one that has a zone
  already is refused.
\<close>

definition localize :: "datetime \<Rightarrow> error + datetime" where
  "localize dt =
     (case tzinfo dt of
        Some tz \<Rightarrow> Inl ValueError
      | None \<Rightarrow> Inr (dt\<lparr>tzinfo := Some pytz_UTC\<rparr>))"

definition utcoffset :: "tzinfo \<Rightarrow> int" where
  "utcoffset tz = (case tz of pytz_UTC \<Rightarrow> 0 | timezone off \<Rightarrow> off)"

text \<open>The offset as \<^verbatim>\<open>isoformat\<close> prints it: \<^verbatim>\<open>+HH:MM[:SS[.ffffff]]\<close>.\<close>

definition format_offset :: "int \<Rightarrow> string" where
  "format_offset off =
     (let a = nat \<bar>off\<bar>;
          hh = a div 3600000000;
          mm = (a div 60000000) mod 60;
          ss = (a div 1000000) mod 60;
          us = a mod 1000000
      in (if off < 0 then ''-'' else ''+'') @ zero_pad 2 hh @ '':'' @ zero_pad 2 mm
         @ (if ss \<noteq> 0 \<or> us \<noteq> 0 then '':'' @ zero_pad 2 ss else [])
         @ (if us \<noteq> 0 then ''.'' @ zero_pad 6 us else []))"

text \<open>\<^verbatim>\<open>datetime.isoformat()\<close> without the zone, and with it.\<close>

definition isoformat_naive :: "datetime \<Rightarrow> string" where
  "isoformat_naive dt =
     zero_pad 4 (year dt) @ ''-'' @ zero_pad 2 (month dt) @ ''-'' @ zero_pad 2 (day dt)
     @ ''T'' @ zero_pad 2 (hour dt) @ '':'' @ zero_pad 2 (minute dt) @ '':''
     @ zero_pad 2 (second dt)
     @ (if microsecond dt \<noteq> 0 then ''.'' @ zero_pad 6 (microsecond dt) else [])"

definition isoformat :: "datetime \<Rightarrow> string" where
  "isoformat dt =
     isoformat_naive dt
     @ (case tzinfo dt of None \<Rightarrow> [] | Some tz \<Rightarrow> format_offset (utcoffset tz))"

subsection \<open>The document model: \<^verbatim>\<open>Post\<close>\<close>

text \<open>
  The dataclass, with the types of its annotations. \<^verbatim>\<open>author\<close> has the default
  \<^verbatim>\<open>""\<close>.
\<close>

record Post =
  published :: datetime
  modified :: datetime
  title :: string
  slug :: string
  content :: string
  summary :: string
  aliases :: "string list"
  categories :: "string list"
  tags :: "string list"
  author :: string

abbreviation QUOTE :: char where
  "QUOTE \<equiv> CHR 0x22"

abbreviation BACKSLASH :: char where
  "BACKSLASH \<equiv> CHR 0x5C"

abbreviation NEWLINE :: char where
  "NEWLINE \<equiv> CHR 0x0A"

text \<open>
  Modelled from the library documentation: \<^verbatim>\<open>json.dumps(obj)\<close> with its defaults
  (\<^verbatim>\<open>ensure_ascii=True\<close>, no indentation, the separators \<^verbatim>\<open>", "\<close> and \<^verbatim>\<open>": "\<close>,
  keys in the order of the dictionary). A string is written between double quotes;
  the quote and the backslash get a backslash, the control characters their short
  escape or \<^verbatim>\<open>\u00XX\<close>, and so does every character outside the printable ASCII range.
\<close>

definition hex_chars :: string where
  "hex_chars = ''0123456789abcdef''"

definition escape_char :: "char \<Rightarrow> string" where
  "escape_char c =
     (let n = (of_char c :: nat) in
      if c = QUOTE then [BACKSLASH, QUOTE]
      else if c = BACKSLASH then [BACKSLASH, BACKSLASH]
      else if n = 8 then [BACKSLASH, CHR ''b'']
      else if n = 12 then [BACKSLASH, CHR ''f'']
      else if n = 10 then [BACKSLASH, CHR ''n'']
      else if n = 13 then [BACKSLASH, CHR ''r'']
      else if n = 9 then [BACKSLASH, CHR ''t'']
      else if 32 \<le> n \<and> n \<le> 126 then [c]
      else [BACKSLASH, CHR ''u'', CHR ''0'', CHR ''0'', hex_chars ! (n div 16), hex_chars ! (n mod 16)])"

definition encode_basestring_ascii :: "string \<Rightarrow> string" where
  "encode_basestring_ascii s = QUOTE # concat (map escape_char s) @ [QUOTE]"

text \<open>\<^verbatim>\<open>sep.join(parts)\<close>.\<close>

fun join :: "string \<Rightarrow> string list \<Rightarrow> string" where
  "join sep [] = []"
| "join sep [x] = x"
| "join sep (x # y # ys) = x @ sep @ join sep (y # ys)"

fun json_dumps :: "json \<Rightarrow> string" where
  "json_dumps JNull = ''null''"
| "json_dumps (JBool b) = (if b then ''true'' else ''false'')"
| "json_dumps (JNum i) = int_repr i"
| "json_dumps (JStr s) = encode_basestring_ascii s"
| "json_dumps (JList xs) = ''['' @ join '', '' (map json_dumps xs) @ '']''"
| "json_dumps (JObj items) =
     ''{'' @ join '', '' (map (\<lambda>kv. encode_basestring_ascii (fst kv) @ '': '' @ json_dumps (snd kv)) items)
     @ ''}''"

text \<open>The property \<^verbatim>\<open>Post.front_matter\<close> and the property \<^verbatim>\<open>Post.md\<close>.\<close>

definition front_matter :: "Post \<Rightarrow> string" where
  "front_matter self = json_dumps (JObj
     [(''title'', JStr (title self)),
      (''categories'', JList (map JStr (categories self))),
      (''tags'', JList (map JStr (tags self))),
      (''aliases'', JList (map JStr (aliases self))),
      (''author'', JStr (author self)),
      (''date'', JStr (isoformat (published self))),
      (''lastmod'', JStr (isoformat (modified self))),
      (''slug'', JStr (slug self)),
      (''summary'', JStr (summary self))])"

definition md :: "Post \<Rightarrow> string" where
  "md self = front_matter self @ [NEWLINE, NEWLINE] @ content self"

subsection \<open>The filesystem\<close>

text \<open>
  A \<^verbatim>\<open>Path\<close> is the list of its parts, as \<^verbatim>\<open>PurePosixPath.parts\<close> gives them: an
  absolute path starts with the part \<^verbatim>\<open>/\<close>. The filesystem maps a path to the node
  there; the current directory \<open>[]\<close> and the roots are directories that always
  exist. Names are taken as they are: \<^verbatim>\<open>..\<close>, symbolic links, permissions and the
  encoding of the text written are outside the model.
\<close>

type_synonym Path = "string list"

datatype node = Dir | File string

type_synonym filesystem = "Path \<Rightarrow> node option"

fun split_on :: "char \<Rightarrow> string \<Rightarrow> string list" where
  "split_on c [] = [[]]"
| "split_on c (x # xs) =
     (if x = c then [] # split_on c xs
      else (case split_on c xs of [] \<Rightarrow> [[x]] | y # ys \<Rightarrow> (x # y) # ys))"

text \<open>
  \<^verbatim>\<open>path / segment\<close>: the segment is split at \<^verbatim>\<open>/\<close>, empty parts and \<^verbatim>\<open>.\<close> are
  dropped, and a segment that starts with \<^verbatim>\<open>/\<close> replaces the path.
\<close>

definition segment_parts :: "string \<Rightarrow> string list" where
  "segment_parts seg = filter (\<lambda>s. s \<noteq> [] \<and> s \<noteq> ''.'') (split_on (CHR ''/'') seg)"

definition truediv :: "Path \<Rightarrow> string \<Rightarrow> Path" where
  "truediv p seg =
     (if take 1 seg = ''/'' then
        (if take 2 seg = ''//'' \<and> take 3 seg \<noteq> ''///'' then ''//'' else ''/'') # segment_parts seg
      else p @ segment_parts seg)"

definition is_root :: "Path \<Rightarrow> bool" where
  "is_root p = (p = [] \<or> p = [''/''] \<or> p = [''//''])"

definition parent :: "Path \<Rightarrow> Path" where
  "parent p = (if is_root p then p else butlast p)"

definition node_at :: "filesystem \<Rightarrow> Path \<Rightarrow> node option" where
  "node_at fs p = (if is_root p then Some Dir else fs p)"

definition is_dir :: "filesystem \<Rightarrow> Path \<Rightarrow> bool" where
  "is_dir fs p = (node_at fs p = Some Dir)"

definition has_nul :: "Path \<Rightarrow> bool" where
  "has_nul p = (\<exists>part \<in> set p. CHR 0x00 \<in> set part)"

text \<open>\<^verbatim>\<open>os.mkdir(path)\<close>: one directory, whose parent must be a directory.\<close>

definition os_mkdir :: "filesystem \<Rightarrow> Path \<Rightarrow> error + filesystem" where
  "os_mkdir fs p =
     (if has_nul p then Inl ValueError
      else case node_at fs (parent p) of
             None \<Rightarrow> Inl FileNotFoundError
           | Some (File t) \<Rightarrow> Inl NotADirectoryError
           | Some Dir \<Rightarrow>
               (case node_at fs p of
                  Some n \<Rightarrow> Inl FileExistsError
                | None \<Rightarrow> Inr (fs(p \<mapsto> Dir))))"

text \<open>
  \<^verbatim>\<open>Path.mkdir(parents=False, exist_ok=True)\<close>: a missing parent is an error, and any
  other \<^verbatim>\<open>OSError\<close> is forgiven when the path is a directory already.
\<close>

definition mkdir_exist_ok :: "filesystem \<Rightarrow> Path \<Rightarrow> error + filesystem" where
  "mkdir_exist_ok fs p =
     (case os_mkdir fs p of
        Inr fs' \<Rightarrow> Inr fs'
      | Inl e \<Rightarrow>
          if e = FileNotFoundError \<or> e = ValueError then Inl e
          else if is_dir fs p then Inr fs else Inl e)"

text \<open>
  \<^verbatim>\<open>Path.mkdir(parents=True, exist_ok=True)\<close>, as pathlib writes it: try the directory,
  on a missing parent make the parent first and try again.
\<close>

function mkdir_parents :: "filesystem \<Rightarrow> Path \<Rightarrow> error + filesystem" where
  "mkdir_parents fs p =
     (case os_mkdir fs p of
        Inr fs' \<Rightarrow> Inr fs'
      | Inl e \<Rightarrow>
          if e = FileNotFoundError then
            (if parent p = p then Inl e
             else (case mkdir_parents fs (parent p) of
                     Inl e' \<Rightarrow> Inl e'
                   | Inr fs1 \<Rightarrow> mkdir_exist_ok fs1 p))
          else if e = ValueError then Inl e
          else if is_dir fs p then Inr fs else Inl e)"
  by pat_completeness auto
termination
proof (relation "measure (\<lambda>(fs, p). length p)")
  show "wf (measure (\<lambda>(fs, p). length p))" by simp
next
  fix fs :: filesystem and p :: Path and e :: error
  assume "parent p \<noteq> p"
  then have "p \<noteq> []" and "parent p = butlast p"
    by (auto simp: parent_def is_root_def split: if_splits)
  then show "((fs, parent p), (fs, p)) \<in> measure (\<lambda>(fs, p). length p)"
    by simp
qed

declare mkdir_parents.simps [simp del]

text \<open>\<^verbatim>\<open>Path.write_text(text)\<close>: open for writing (create or truncate), write, close.\<close>

definition write_text :: "filesystem \<Rightarrow> Path \<Rightarrow> string \<Rightarrow> error + filesystem" where
  "write_text fs p t =
     (if has_nul p then Inl ValueError
      else case node_at fs (parent p) of
             None \<Rightarrow> Inl FileNotFoundError
           | Some (File t') \<Rightarrow> Inl NotADirectoryError
           | Some Dir \<Rightarrow>
               (case node_at fs p of
                  Some Dir \<Rightarrow> Inl IsADirectoryError
                | _ \<Rightarrow> Inr (fs(p \<mapsto> File t))))"

subsection \<open>The world: network, filesystem and the memoized properties\<close>

record Request =
  url :: string
  params :: "(string \<times> json) list"
  headers :: "(string \<times> string) list"

text \<open>
  A response, as far as the program reads it: \<open>body\<close> is the body parsed as JSON,
  \<open>None\<close> for a body that is not JSON (\<^verbatim>\<open>Response.json()\<close> raises then). The
  network answers a request knowing the requests sent before it, or fails.
\<close>

record Response =
  status_code :: int
  body :: "json option"

type_synonym network = "Request list \<Rightarrow> Request \<Rightarrow> error + Response"

text \<open>
  What a run can change: the requests sent so far (oldest first), the filesystem, and
  the values the \<^verbatim>\<open>cached_property\<close> methods have stored in the \<^verbatim>\<open>Extractor\<close> and the
  \<^verbatim>\<open>Constructor\<close> instance (\<open>None\<close>: not computed yet).
\<close>

record world =
  requests :: "Request list"
  files :: filesystem
  categories_memo :: "pydict option"
  tags_memo :: "pydict option"
  posts_memo :: "Post list option"
  posts_directory_memo :: "Path option"

definition fresh_world :: "filesystem \<Rightarrow> world" where
  "fresh_world fs = \<lparr>requests = [], files = fs, categories_memo = None, tags_memo = None,
     posts_memo = None, posts_directory_memo = None\<rparr>"

datatype 'a outcome = Returns 'a world | Raises error world

fun world_of :: "'a outcome \<Rightarrow> world" where
  "world_of (Returns x w) = w"
| "world_of (Raises e w) = w"

text \<open>
  A generator is modelled by what its consumer does: \<open>for_each consume xs acc w\<close> hands
  the elements to the consumer one by one, threading the consumer's accumulator and
  the world, and stops at the first exception.
\<close>

fun for_each ::
  "('x \<Rightarrow> 'a \<Rightarrow> world \<Rightarrow> 'a outcome option) \<Rightarrow> 'x list \<Rightarrow> 'a \<Rightarrow> world \<Rightarrow> 'a outcome option" where
  "for_each consume [] acc w = Some (Returns acc w)"
| "for_each consume (x # xs) acc w =
     (case consume x acc w of
        None \<Rightarrow> None
      | Some (Raises e w') \<Rightarrow> Some (Raises e w')
      | Some (Returns acc' w') \<Rightarrow> for_each consume xs acc' w')"

text \<open>The consumer \<^verbatim>\<open>list(...)\<close>: it keeps every element.\<close>

definition collect :: "'x \<Rightarrow> 'x list \<Rightarrow> world \<Rightarrow> 'x list outcome option" where
  "collect x acc w = Some (Returns (acc @ [x]) w)"

subsection \<open>\<^verbatim>\<open>Extractor\<close>: requests and the paginated fetcher\<close>

definition BASE_HEADERS :: "(string \<times> string) list" where
  "BASE_HEADERS =
     [(''User-Agent'', ''Mozilla/5.0 (X11; Linux x86_64; rv:83.0) Gecko/20100101 Firefox/83.0'')]"

text \<open>
  \<^verbatim>\<open>Extractor.get\<close>: the caller's headers are merged over \<^verbatim>\<open>BASE_HEADERS\<close>, the
  request is sent, and the response (or the failure of the network) comes back. The
  source's default \<^verbatim>\<open>{}\<close> for \<^verbatim>\<open>params\<close> and \<^verbatim>\<open>headers\<close> is \<open>[]\<close>.
\<close>

definition get ::
  "network \<Rightarrow> string \<Rightarrow> (string \<times> json) list \<Rightarrow> (string \<times> string) list \<Rightarrow> world \<Rightarrow> Response outcome" where
  "get net u ps hs w =
     (let full_headers = fold (\<lambda>(k, v). AList.update k v) hs BASE_HEADERS;
          req = \<lparr>url = u, params = ps, headers = full_headers\<rparr>;
          w' = w\<lparr>requests := requests w @ [req]\<rparr>
      in case net (requests w) req of
           Inl e \<Rightarrow> Raises e w'
         | Inr r \<Rightarrow> Returns r w')"

text \<open>\<^verbatim>\<open>Response.json()\<close>.\<close>

definition json_of :: "Response \<Rightarrow> error + json" where
  "json_of r = (case body r of None \<Rightarrow> Inl ValueError | Some j \<Rightarrow> Inr j)"

text \<open>The default of the parameter \<^verbatim>\<open>base_params\<close> of \<^verbatim>\<open>pageWhileList\<close>.\<close>

definition default_base_params :: "(string \<times> json) list" where
  "default_base_params = [(''per_page'', JNum 100), (''order'', JStr ''asc''), (''orderby'', JStr ''id'')]"

text \<open>
  The \<^verbatim>\<open>while\<close> loop of \<^verbatim>\<open>pageWhileList\<close>, from the page it is at. The walrus
  condition sends \<^verbatim>\<open>self.get(url=url, params=dict(page=page))\<close>, parses the body, and
  goes on while the body is a list that is not empty; \<^verbatim>\<open>yield from items\<close> hands the
  elements to the consumer. \<open>base_params\<close> is a parameter, as in the source, and as in
  the source the body never reads it.
\<close>

partial_function (option) pageWhileList_from ::
  "network \<Rightarrow> (json \<Rightarrow> 'a \<Rightarrow> world \<Rightarrow> 'a outcome option) \<Rightarrow> string \<Rightarrow> (string \<times> json) list
     \<Rightarrow> int \<Rightarrow> 'a \<Rightarrow> world \<Rightarrow> 'a outcome option" where
  "pageWhileList_from net consume u base_params page acc w =
     (case get net u [(''page'', JNum page)] [] w of
        Raises e w1 \<Rightarrow> Some (Raises e w1)
      | Returns r w1 \<Rightarrow>
          (case json_of r of
             Inl e \<Rightarrow> Some (Raises e w1)
           | Inr (JList items) \<Rightarrow>
               if length items > 0 then
                 (case for_each consume items acc w1 of
                    None \<Rightarrow> None
                  | Some (Raises e w2) \<Rightarrow> Some (Raises e w2)
                  | Some (Returns acc' w2) \<Rightarrow>
                      pageWhileList_from net consume u base_params (page + 1) acc' w2)
               else Some (Returns acc w1)
           | Inr _ \<Rightarrow> Some (Returns acc w1)))"

definition pageWhileList ::
  "network \<Rightarrow> (json \<Rightarrow> 'a \<Rightarrow> world \<Rightarrow> 'a outcome option) \<Rightarrow> string \<Rightarrow> (string \<times> json) list
     \<Rightarrow> 'a \<Rightarrow> world \<Rightarrow> 'a outcome option" where
  "pageWhileList net consume u base_params acc w =
     pageWhileList_from net consume u base_params 1 acc w"

subsection \<open>\<^verbatim>\<open>Extractor\<close>: the memoized reference dictionaries\<close>

text \<open>One step of the comprehension \<^verbatim>\<open>{x["id"]: x for x in ...}\<close>.\<close>

definition index_by_id :: "json \<Rightarrow> pydict \<Rightarrow> world \<Rightarrow> pydict outcome option" where
  "index_by_id x d w =
     (case subscript x ''id'' of
        Inl e \<Rightarrow> Some (Raises e w)
      | Inr k \<Rightarrow>
          (case dict_setitem d k x of
             Inl e \<Rightarrow> Some (Raises e w)
           | Inr d' \<Rightarrow> Some (Returns d' w)))"

text \<open>
  The \<^verbatim>\<open>cached_property\<close> methods \<^verbatim>\<open>Extractor.categories\<close> and \<^verbatim>\<open>Extractor.tags\<close>
  (the names \<open>categories\<close> and \<open>tags\<close> are the fields of \<open>Post\<close> here). A stored
  value is returned as it is; otherwise the method body runs and, when it returns,
  its value is stored.
\<close>

definition Extractor_categories :: "network \<Rightarrow> string \<Rightarrow> world \<Rightarrow> pydict outcome option" where
  "Extractor_categories net base_url w =
     (case categories_memo w of
        Some d \<Rightarrow> Some (Returns d w)
      | None \<Rightarrow>
          (case pageWhileList net index_by_id (base_url @ ''/wp-json/wp/v2/categories'')
                  default_base_params [] w of
             None \<Rightarrow> None
           | Some (Raises e w') \<Rightarrow> Some (Raises e w')
           | Some (Returns d w') \<Rightarrow> Some (Returns d (w'\<lparr>categories_memo := Some d\<rparr>))))"

definition Extractor_tags :: "network \<Rightarrow> string \<Rightarrow> world \<Rightarrow> pydict outcome option" where
  "Extractor_tags net base_url w =
     (case tags_memo w of
        Some d \<Rightarrow> Some (Returns d w)
      | None \<Rightarrow>
          (case pageWhileList net index_by_id (base_url @ ''/wp-json/wp/v2/tags'')
                  default_base_params [] w of
             None \<Rightarrow> None
           | Some (Raises e w') \<Rightarrow> Some (Raises e w')
           | Some (Returns d w') \<Rightarrow> Some (Returns d (w'\<lparr>tags_memo := Some d\<rparr>))))"

subsection \<open>\<^verbatim>\<open>Extractor\<close>: the normalizer\<close>

text \<open>
  \<^verbatim>\<open>pytz.UTC.localize(datetime.fromisoformat(data[key]))\<close>; \<^verbatim>\<open>fromisoformat\<close> raises
  \<^verbatim>\<open>TypeError\<close> on an argument that is not a string.
\<close>

definition utc_timestamp :: "json \<Rightarrow> string \<Rightarrow> error + datetime" where
  "utc_timestamp data k =
     (case subscript data k of
        Inl e \<Rightarrow> Inl e
      | Inr (JStr s) \<Rightarrow> (case fromisoformat s of Inl e \<Rightarrow> Inl e | Inr dt \<Rightarrow> localize dt)
      | Inr _ \<Rightarrow> Inl TypeError)"

text \<open>
  \<^verbatim>\<open>unescape(data[key]["rendered"])\<close>, with \<^verbatim>\<open>html.unescape\<close> as the parameter
  \<open>unescape\<close> on strings. On a number, a boolean or \<^verbatim>\<open>None\<close> the library raises
  \<^verbatim>\<open>TypeError\<close> (its test \<^verbatim>\<open>'&' not in s\<close> does); a list or a dict holding \<^verbatim>\<open>'&'\<close>
  reaches the regular expression, which raises \<^verbatim>\<open>TypeError\<close>, and one without it
  is handed back unchanged.
\<close>

definition rendered :: "(string \<Rightarrow> string) \<Rightarrow> json \<Rightarrow> string \<Rightarrow> error + string" where
  "rendered unescape data k =
     (case subscript data k of
        Inl e \<Rightarrow> Inl e
      | Inr field \<Rightarrow>
          (case subscript field ''rendered'' of
             Inl e \<Rightarrow> Inl e
           | Inr (JStr s) \<Rightarrow> Inr (unescape s)
           | Inr (JList xs) \<Rightarrow> if JStr ''&'' \<in> set xs then Inl TypeError else Inl AnnotationMismatch
           | Inr (JObj items) \<Rightarrow>
               if ''&'' \<in> fst ` set items then Inl TypeError else Inl AnnotationMismatch
           | Inr _ \<Rightarrow> Inl TypeError))"

definition slug_of :: "json \<Rightarrow> error + string" where
  "slug_of data =
     (case subscript data ''slug'' of
        Inl e \<Rightarrow> Inl e
      | Inr (JStr s) \<Rightarrow> Inr s
      | Inr _ \<Rightarrow> Inl AnnotationMismatch)"

text \<open>
  One step of \<^verbatim>\<open>list(map(lambda i: self.categories[i]["name"], ids))\<close>: \<open>memo\<close> is the
  memoized property, read at every step.
\<close>

definition resolve_name ::
  "(world \<Rightarrow> pydict outcome option) \<Rightarrow> json \<Rightarrow> string list \<Rightarrow> world \<Rightarrow> string list outcome option" where
  "resolve_name memo i acc w =
     (case memo w of
        None \<Rightarrow> None
      | Some (Raises e w') \<Rightarrow> Some (Raises e w')
      | Some (Returns d w') \<Rightarrow>
          (case dict_getitem d i of
             Inl e \<Rightarrow> Some (Raises e w')
           | Inr r \<Rightarrow>
               (case subscript r ''name'' of
                  Inl e \<Rightarrow> Some (Raises e w')
                | Inr (JStr n) \<Rightarrow> Some (Returns (acc @ [n]) w')
                | Inr _ \<Rightarrow> Some (Raises AnnotationMismatch w'))))"

definition resolve_names ::
  "(world \<Rightarrow> pydict outcome option) \<Rightarrow> json \<Rightarrow> string \<Rightarrow> world \<Rightarrow> string list outcome option" where
  "resolve_names memo data k w =
     (case subscript data k of
        Inl e \<Rightarrow> Some (Raises e w)
      | Inr v \<Rightarrow>
          (case py_iter v of
             Inl e \<Rightarrow> Some (Raises e w)
           | Inr ids \<Rightarrow> for_each (resolve_name memo) ids [] w))"

text \<open>
  \<^verbatim>\<open>Extractor.enhance_post\<close>. The keyword arguments are evaluated in the order they
  are written: \<^verbatim>\<open>published\<close>, \<^verbatim>\<open>modified\<close>, \<^verbatim>\<open>title\<close>, \<^verbatim>\<open>slug\<close>, \<^verbatim>\<open>aliases\<close>,
  \<^verbatim>\<open>categories\<close>, \<^verbatim>\<open>tags\<close>, \<^verbatim>\<open>content\<close>, \<^verbatim>\<open>summary\<close>.
\<close>

definition enhance_post ::
  "(string \<Rightarrow> string) \<Rightarrow> network \<Rightarrow> string \<Rightarrow> json \<Rightarrow> world \<Rightarrow> Post outcome option" where
  "enhance_post unescape net base_url data w =
     (case utc_timestamp data ''date_gmt'' of
        Inl e \<Rightarrow> Some (Raises e w)
      | Inr pub \<Rightarrow>
     (case utc_timestamp data ''modified_gmt'' of
        Inl e \<Rightarrow> Some (Raises e w)
      | Inr modi \<Rightarrow>
     (case rendered unescape data ''title'' of
        Inl e \<Rightarrow> Some (Raises e w)
      | Inr ti \<Rightarrow>
     (case slug_of data of
        Inl e \<Rightarrow> Some (Raises e w)
      | Inr sl \<Rightarrow>
     (case resolve_names (Extractor_categories net base_url) data ''categories'' w of
        None \<Rightarrow> None
      | Some (Raises e w1) \<Rightarrow> Some (Raises e w1)
      | Some (Returns cats w1) \<Rightarrow>
     (case resolve_names (Extractor_tags net base_url) data ''tags'' w1 of
        None \<Rightarrow> None
      | Some (Raises e w2) \<Rightarrow> Some (Raises e w2)
      | Some (Returns tgs w2) \<Rightarrow>
     (case rendered unescape data ''content'' of
        Inl e \<Rightarrow> Some (Raises e w2)
      | Inr co \<Rightarrow>
     (case rendered unescape data ''excerpt'' of
        Inl e \<Rightarrow> Some (Raises e w2)
      | Inr su \<Rightarrow>
          Some (Returns
            \<lparr>published = pub, modified = modi, title = ti, slug = sl, content = co,
             summary = su, aliases = [], categories = cats, tags = tgs, author = []\<rparr> w2)))))))))"

text \<open>
  \<^verbatim>\<open>Extractor.get_posts\<close>: the lazy \<^verbatim>\<open>map\<close> of \<^verbatim>\<open>enhance_post\<close> over the fetcher. Each
  raw record is normalized when the consumer asks for it, and the post goes to the
  consumer before the next record is touched.
\<close>

definition enhance_then ::
  "(string \<Rightarrow> string) \<Rightarrow> network \<Rightarrow> string \<Rightarrow> (Post \<Rightarrow> 'a \<Rightarrow> world \<Rightarrow> 'a outcome option)
     \<Rightarrow> json \<Rightarrow> 'a \<Rightarrow> world \<Rightarrow> 'a outcome option" where
  "enhance_then unescape net base_url consume data acc w =
     (case enhance_post unescape net base_url data w of
        None \<Rightarrow> None
      | Some (Raises e w') \<Rightarrow> Some (Raises e w')
      | Some (Returns post w') \<Rightarrow> consume post acc w')"

definition get_posts ::
  "(string \<Rightarrow> string) \<Rightarrow> network \<Rightarrow> string \<Rightarrow> (Post \<Rightarrow> 'a \<Rightarrow> world \<Rightarrow> 'a outcome option)
     \<Rightarrow> 'a \<Rightarrow> world \<Rightarrow> 'a outcome option" where
  "get_posts unescape net base_url consume acc w =
     pageWhileList net (enhance_then unescape net base_url consume)
       (base_url @ ''/wp-json/wp/v2/posts'') default_base_params acc w"

text \<open>The \<^verbatim>\<open>cached_property\<close> \<^verbatim>\<open>Extractor.posts\<close>: \<^verbatim>\<open>list(self.get_posts())\<close>.\<close>

definition posts :: "(string \<Rightarrow> string) \<Rightarrow> network \<Rightarrow> string \<Rightarrow> world \<Rightarrow> Post list outcome option" where
  "posts unescape net base_url w =
     (case posts_memo w of
        Some ps \<Rightarrow> Some (Returns ps w)
      | None \<Rightarrow>
          (case get_posts unescape net base_url collect [] w of
             None \<Rightarrow> None
           | Some (Raises e w') \<Rightarrow> Some (Raises e w')
           | Some (Returns ps w') \<Rightarrow> Some (Returns ps (w'\<lparr>posts_memo := Some ps\<rparr>))))"

subsection \<open>\<^verbatim>\<open>Constructor\<close>: the file writer\<close>

text \<open>
  The \<^verbatim>\<open>cached_property\<close> \<^verbatim>\<open>Constructor.posts_directory\<close>: the directory is made
  when the property is first read.
\<close>

definition posts_directory :: "Path \<Rightarrow> world \<Rightarrow> Path outcome" where
  "posts_directory base_path w =
     (case posts_directory_memo w of
        Some p \<Rightarrow> Returns p w
      | None \<Rightarrow>
          (let path = truediv (truediv base_path ''content'') ''posts'' in
           case mkdir_parents (files w) path of
             Inl e \<Rightarrow> Raises e w
           | Inr fs' \<Rightarrow> Returns path (w\<lparr>files := fs', posts_directory_memo := Some path\<rparr>)))"

text \<open>\<^verbatim>\<open>Constructor.add_post\<close>.\<close>

definition add_post :: "Path \<Rightarrow> Post \<Rightarrow> world \<Rightarrow> unit outcome" where
  "add_post base_path post w =
     (case posts_directory base_path w of
        Raises e w1 \<Rightarrow> Raises e w1
      | Returns dir w1 \<Rightarrow>
          (let path = truediv dir (slug post) in
           case mkdir_parents (files w1) path of
             Inl e \<Rightarrow> Raises e w1
           | Inr fs2 \<Rightarrow>
               (case write_text fs2 (truediv path ''index.md'') (md post) of
                  Inl e \<Rightarrow> Raises e (w1\<lparr>files := fs2\<rparr>)
                | Inr fs3 \<Rightarrow> Returns () (w1\<lparr>files := fs3\<rparr>))))"

subsection \<open>The driving loop\<close>

text \<open>
  \<^verbatim>\<open>for post in e.get_posts(): c.add_post(post)\<close>, for an \<^verbatim>\<open>Extractor\<close> with the given
  \<^verbatim>\<open>base_url\<close> and a \<^verbatim>\<open>Constructor\<close> with the given \<^verbatim>\<open>base_path\<close>.
\<close>

definition write_post :: "Path \<Rightarrow> Post \<Rightarrow> unit \<Rightarrow> world \<Rightarrow> unit outcome option" where
  "write_post target_dir post u w = Some (add_post target_dir post w)"

definition main :: "(string \<Rightarrow> string) \<Rightarrow> network \<Rightarrow> string \<Rightarrow> Path \<Rightarrow> world \<Rightarrow> unit outcome option" where
  "main unescape net base_url target_dir w =
     get_posts unescape net base_url (write_post target_dir) () w"

subsection \<open>Vocabulary of the statements\<close>

text \<open>
  The request \<^verbatim>\<open>pageWhileList\<close> sends for a page: the call
  \<^verbatim>\<open>self.get(url=url, params=dict(page=page))\<close> with no headers of the caller's.
\<close>

definition page_request :: "string \<Rightarrow> int \<Rightarrow> Request" where
  "page_request u page = \<lparr>url = u, params = [(''page'', JNum page)], headers = BASE_HEADERS\<rparr>"

definition log_request :: "Request \<Rightarrow> world \<Rightarrow> world" where
  "log_request r w = w\<lparr>requests := requests w @ [r]\<rparr>"

text \<open>The loop condition \<^verbatim>\<open>isinstance(items, list) and len(items) > 0\<close>.\<close>

definition nonempty_list :: "json \<Rightarrow> bool" where
  "nonempty_list j = (case j of JList items \<Rightarrow> items \<noteq> [] | _ \<Rightarrow> False)"

subsection \<open>Sample inputs\<close>

text \<open>
  A server with two pages, \<^verbatim>\<open>[5, 6]\<close> and \<^verbatim>\<open>[7]\<close>, that answers every other request
  with an error object, as WordPress does past the last page.
\<close>

definition two_pages :: "int \<Rightarrow> json list" where
  "two_pages p = (if p = 1 then [JNum 5, JNum 6] else [JNum 7])"

definition two_page_net :: network where
  "two_page_net h r =
     (if params r = [(''page'', JNum 1)] then Inr \<lparr>status_code = 200, body = Some (JList (two_pages 1))\<rparr>
      else if params r = [(''page'', JNum 2)] then Inr \<lparr>status_code = 200, body = Some (JList (two_pages 2))\<rparr>
      else Inr \<lparr>status_code = 400, body = Some (JObj [(''code'', JStr ''rest_post_invalid_page_number'')])\<rparr>)"

text \<open>The page number a request asks for (\<open>0\<close> when it names none).\<close>

definition the_page :: "Request \<Rightarrow> int" where
  "the_page r = (case map_of (params r) ''page'' of Some (JNum n) \<Rightarrow> n | _ \<Rightarrow> 0)"

subsection \<open>Vocabulary of the statements about the rendered document\<close>

text \<open>A printable ASCII character: space to tilde.\<close>

definition printable :: "char \<Rightarrow> bool" where
  "printable c = (32 \<le> (of_char c :: nat) \<and> (of_char c :: nat) \<le> 126)"

text \<open>A text between double quotes, and a JSON array of strings as \<^verbatim>\<open>json.dumps\<close> writes it.\<close>

definition quoted :: "string \<Rightarrow> string" where
  "quoted s = QUOTE # s @ [QUOTE]"

definition string_array :: "string list \<Rightarrow> string" where
  "string_array xs = ''['' @ join '', '' (map encode_basestring_ascii xs) @ '']''"

subsection \<open>A sample blog\<close>

text \<open>
  A decoder of the one entity \<^verbatim>\<open>&amp;\<close>. It stands for \<^verbatim>\<open>html.unescape\<close> on the
  sample records below, which hold no other entity.
\<close>

function amp_unescape :: "string \<Rightarrow> string" where
  "amp_unescape s =
     (if take 5 s = ''&amp;'' then CHR ''&'' # amp_unescape (drop 5 s)
      else (case s of [] \<Rightarrow> [] | c # cs \<Rightarrow> c # amp_unescape cs))"
  by pat_completeness auto
termination
proof (relation "measure length")
  show "wf (measure length)" by simp
next
  fix s :: string
  assume "take 5 s = ''&amp;''"
  then have "s \<noteq> []" by auto
  then show "(drop 5 s, s) \<in> measure length" by simp
next
  fix s :: string and c cs
  assume "s = c # cs"
  then show "(cs, s) \<in> measure length" by simp
qed

declare amp_unescape.simps [simp del]

text \<open>Two raw post records; the second names the category 9, which does not exist.\<close>

definition hello_raw :: json where
  "hello_raw = JObj
     [(''id'', JNum 1),
      (''date_gmt'', JStr ''2020-01-02T03:04:05''),
      (''modified_gmt'', JStr ''2020-02-03T04:05:06''),
      (''slug'', JStr ''hello-world''),
      (''title'', JObj [(''rendered'', JStr ''A &amp; B'')]),
      (''content'', JObj [(''rendered'', JStr ''<p>Tom &amp; Jerry</p>'')]),
      (''excerpt'', JObj [(''rendered'', JStr ''Tom'')]),
      (''categories'', JList [JNum 3, JNum 7]),
      (''tags'', JList [])]"

definition orphan_raw :: json where
  "orphan_raw = JObj
     [(''id'', JNum 2),
      (''date_gmt'', JStr ''2020-03-04T05:06:07''),
      (''modified_gmt'', JStr ''2020-03-04T05:06:07''),
      (''slug'', JStr ''orphan''),
      (''title'', JObj [(''rendered'', JStr ''Orphan'')]),
      (''content'', JObj [(''rendered'', JStr ''<p>Lost</p>'')]),
      (''excerpt'', JObj [(''rendered'', JStr ''Lost'')]),
      (''categories'', JList [JNum 9]),
      (''tags'', JList [])]"

definition news_raw :: json where
  "news_raw = JObj [(''id'', JNum 3), (''name'', JStr ''News'')]"

definition events_raw :: json where
  "events_raw = JObj [(''id'', JNum 7), (''name'', JStr ''Events'')]"

definition sample_categories :: pydict where
  "sample_categories = [(JNum 3, news_raw), (JNum 7, events_raw)]"

definition utc_2020_01_02 :: datetime where
  "utc_2020_01_02 = \<lparr>year = 2020, month = 1, day = 2, hour = 3, minute = 4, second = 5,
     microsecond = 0, tzinfo = Some pytz_UTC\<rparr>"

definition utc_2020_02_03 :: datetime where
  "utc_2020_02_03 = \<lparr>year = 2020, month = 2, day = 3, hour = 4, minute = 5, second = 6,
     microsecond = 0, tzinfo = Some pytz_UTC\<rparr>"

text \<open>The post \<^verbatim>\<open>enhance_post\<close> makes of \<open>hello_raw\<close>.\<close>

definition hello_post :: Post where
  "hello_post = \<lparr>published = utc_2020_01_02, modified = utc_2020_02_03, title = ''A & B'',
     slug = ''hello-world'', content = ''<p>Tom & Jerry</p>'', summary = ''Tom'', aliases = [],
     categories = [''News'', ''Events''], tags = [], author = []\<rparr>"

text \<open>A post whose texts hold a line break, a quote, a backslash and a character beyond ASCII.\<close>

definition awkward_post :: Post where
  "awkward_post = \<lparr>published = utc_2020_01_02, modified = utc_2020_02_03,
     title = [CHR ''a'', NEWLINE, CHR ''b''], slug = ''s'',
     content = [CHR ''x'', NEWLINE, NEWLINE, CHR ''y''],
     summary = [QUOTE, BACKSLASH, CHR 0xE9], aliases = [],
     categories = [[NEWLINE]], tags = [], author = []\<rparr>"

subsection \<open>Vocabulary of the statements about the normalizer\<close>

text \<open>
  The name a reference dictionary gives for an ID: \<^verbatim>\<open>d[i]["name"]\<close>, when the ID is a
  key of the dictionary and the record there has a string under \<^verbatim>\<open>name\<close>.
\<close>

definition name_in :: "pydict \<Rightarrow> json \<Rightarrow> string option" where
  "name_in d i =
     (case dict_getitem d i of
        Inl e \<Rightarrow> None
      | Inr r \<Rightarrow> (case subscript r ''name'' of Inr (JStr n) \<Rightarrow> Some n | _ \<Rightarrow> None))"

text \<open>A character \<^verbatim>\<open>json.dumps\<close> writes as it is.\<close>

definition plain :: "char \<Rightarrow> bool" where
  "plain c = (printable c \<and> c \<noteq> QUOTE \<and> c \<noteq> BACKSLASH)"

text \<open>
  The sample blog at \<^verbatim>\<open>https://example.org\<close>: one page of posts (\<open>hello_raw\<close>, then
  \<open>orphan_raw\<close>), one page of categories, no tags; every other request gets the error
  object.
\<close>

definition blog_url :: string where
  "blog_url = ''https://example.org''"

definition error_response :: Response where
  "error_response = \<lparr>status_code = 400,
     body = Some (JObj [(''code'', JStr ''rest_post_invalid_page_number'')])\<rparr>"

definition blog_net :: network where
  "blog_net h r =
     (if url r = blog_url @ ''/wp-json/wp/v2/posts'' \<and> params r = [(''page'', JNum 1)]
      then Inr \<lparr>status_code = 200, body = Some (JList [hello_raw, orphan_raw])\<rparr>
      else if url r = blog_url @ ''/wp-json/wp/v2/categories'' \<and> params r = [(''page'', JNum 1)]
      then Inr \<lparr>status_code = 200, body = Some (JList [news_raw, events_raw])\<rparr>
      else Inr error_response)"

text \<open>A world in which both reference dictionaries of the sample blog are memoized.\<close>

definition cached_world :: world where
  "cached_world = (fresh_world Map.empty)\<lparr>categories_memo := Some sample_categories,
     tags_memo := Some []\<rparr>"

subsection \<open>Vocabulary of the statements about the memoized dictionaries\<close>

text \<open>
  \<open>settled base_url w w'\<close>: from \<open>w\<close> to \<open>w'\<close> requests were only added; a reference
  dictionary that was memoized in \<open>w\<close> is the same in \<open>w'\<close>, and none of the added
  requests went to its endpoint.
\<close>

definition settled :: "string \<Rightarrow> world \<Rightarrow> world \<Rightarrow> bool" where
  "settled base_url w w' =
     (\<exists>new. requests w' = requests w @ new
        \<and> (\<forall>d. categories_memo w = Some d \<longrightarrow>
              categories_memo w' = Some d
              \<and> list_all (\<lambda>r. url r \<noteq> base_url @ ''/wp-json/wp/v2/categories'') new)
        \<and> (\<forall>d. tags_memo w = Some d \<longrightarrow>
              tags_memo w' = Some d
              \<and> list_all (\<lambda>r. url r \<noteq> base_url @ ''/wp-json/wp/v2/tags'') new))"

subsection \<open>Vocabulary of the statements about the file writer\<close>

text \<open>
  A slug that is one valid path segment: not empty, no \<^verbatim>\<open>/\<close>, no NUL, and neither
  \<^verbatim>\<open>.\<close> nor \<^verbatim>\<open>..\<close>.
\<close>

definition plain_name :: "string \<Rightarrow> bool" where
  "plain_name s = (s \<noteq> [] \<and> CHR ''/'' \<notin> set s \<and> CHR 0x00 \<notin> set s \<and> s \<noteq> ''.'' \<and> s \<noteq> ''..'')"

text \<open>The directory of a post, \<^verbatim>\<open><base>/content/posts/<slug>\<close>, and its file.\<close>

definition post_directory :: "Path \<Rightarrow> string \<Rightarrow> Path" where
  "post_directory base_path s = base_path @ [''content'', ''posts'', s]"

definition index_file :: "Path \<Rightarrow> string \<Rightarrow> Path" where
  "index_file base_path s = post_directory base_path s @ [''index.md'']"

text \<open>A filesystem is a tree: the parent of every node is a directory.\<close>

definition tree :: "filesystem \<Rightarrow> bool" where
  "tree fs = (\<forall>p n. fs p = Some n \<longrightarrow> is_dir fs (parent p))"

text \<open>No regular file stands at the path or above it.\<close>

definition no_file_on :: "filesystem \<Rightarrow> Path \<Rightarrow> bool" where
  "no_file_on fs p = (\<forall>k t. node_at fs (take k p) \<noteq> Some (File t))"

text \<open>
  The \<^verbatim>\<open>Constructor\<close> of the given base path has not read \<^verbatim>\<open>posts_directory\<close> yet, or
  has memoized it.
\<close>

definition constructor_of :: "Path \<Rightarrow> world \<Rightarrow> bool" where
  "constructor_of base_path w =
     (posts_directory_memo w = None
      \<or> posts_directory_memo w = Some (base_path @ [''content'', ''posts'']))"

text \<open>
  \<open>kept fs fs'\<close>: nothing was removed. A directory of \<open>fs\<close> is a directory of \<open>fs'\<close>
  and a file of \<open>fs\<close> is a file of \<open>fs'\<close> (its text may differ).
\<close>

definition kept :: "filesystem \<Rightarrow> filesystem \<Rightarrow> bool" where
  "kept fs fs' =
     (\<forall>p. (fs p = Some Dir \<longrightarrow> fs' p = Some Dir)
        \<and> (\<forall>t. fs p = Some (File t) \<longrightarrow> (\<exists>t'. fs' p = Some (File t'))))"

text \<open>
  \<open>grown p fs fs'\<close>: \<open>fs'\<close> is \<open>fs\<close> with directories added, where nothing was, at
  the path \<open>p\<close> or above it.
\<close>

definition grown :: "Path \<Rightarrow> filesystem \<Rightarrow> filesystem \<Rightarrow> bool" where
  "grown p fs fs' =
     (\<forall>q. fs' q = fs q \<or> (fs q = None \<and> fs' q = Some Dir \<and> (\<exists>k. q = take k p)))"

text \<open>
  \<open>extractor_only w w'\<close>: the two worlds differ at most in what the \<^verbatim>\<open>Extractor\<close> owns,
  the requests sent and the two memoized dictionaries; the filesystem and the
  \<^verbatim>\<open>Constructor\<close> are the same.
\<close>

definition extractor_only :: "world \<Rightarrow> world \<Rightarrow> bool" where
  "extractor_only w w' =
     (\<exists>rs c t. w' = w\<lparr>requests := rs, categories_memo := c, tags_memo := t\<rparr>)"

text \<open>
  The first ID of the list that the dictionary cannot resolve is \<open>i\<close>: the IDs before
  it have names, and \<^verbatim>\<open>d[i]\<close> raises \<^verbatim>\<open>KeyError\<close>.
\<close>

definition first_missing :: "pydict \<Rightarrow> json list \<Rightarrow> json \<Rightarrow> bool" where
  "first_missing d ids i =
     (\<exists>before after. ids = before @ i # after
        \<and> list_all (\<lambda>j. name_in d j \<noteq> None) before
        \<and> dict_getitem d i = Inl (KeyError i))"

text \<open>The consumer of the driving loop: normalize the record, then write the post.\<close>

definition migrate_one ::
  "(string \<Rightarrow> string) \<Rightarrow> network \<Rightarrow> string \<Rightarrow> Path \<Rightarrow> json \<Rightarrow> unit \<Rightarrow> world \<Rightarrow> unit outcome option" where
  "migrate_one unescape net base_url target_dir =
     enhance_then unescape net base_url (write_post target_dir)"

text \<open>The filesystem after the sample blog's first post was written under \<^verbatim>\<open>out\<close>.\<close>

definition hello_files :: filesystem where
  "hello_files = [[''out''] \<mapsto> Dir, [''out'', ''content''] \<mapsto> Dir,
     [''out'', ''content'', ''posts''] \<mapsto> Dir,
     [''out'', ''content'', ''posts'', ''hello-world''] \<mapsto> Dir,
     [''out'', ''content'', ''posts'', ''hello-world'', ''index.md''] \<mapsto> File (md hello_post)]"

section \<open>Properties\<close>

subsection \<open>The fetcher's loop\<close>

lemma get_page:
  "get net u [(''page'', JNum page)] [] w =
     (case net (requests w) (page_request u page) of
        Inl e \<Rightarrow> Raises e (log_request (page_request u page) w)
      | Inr r \<Rightarrow> Returns r (log_request (page_request u page) w))"
  by (simp add: get_def page_request_def log_request_def Let_def split: sum.split)

lemma log_request_requests: "requests (log_request r w) = requests w @ [r]"
  by (simp add: log_request_def)

lemma for_each_collect: "for_each collect xs acc w = Some (Returns (acc @ xs) w)"
  by (induction xs arbitrary: acc) (simp_all add: collect_def)

text \<open>One turn of the loop: a page that is a non-empty list, consumed without an exception.\<close>

lemma pageWhileList_from_step:
  assumes "net (requests w) (page_request u page) = Inr r"
    and "json_of r = Inr (JList items)" and "items \<noteq> []"
    and "for_each consume items acc (log_request (page_request u page) w) = Some (Returns acc' w2)"
  shows "pageWhileList_from net consume u base_params page acc w =
         pageWhileList_from net consume u base_params (page + 1) acc' w2"
  by (subst pageWhileList_from.simps) (simp add: get_page assms)

lemma pageWhileList_from_stop:
  assumes "net (requests w) (page_request u page) = Inr r"
    and "json_of r = Inr j" and "\<not> nonempty_list j"
  shows "pageWhileList_from net consume u base_params page acc w =
         Some (Returns acc (log_request (page_request u page) w))"
  using assms
  by (subst pageWhileList_from.simps) (simp add: get_page nonempty_list_def split: json.splits)

lemma pageWhileList_from_raises:
  assumes "net (requests w) (page_request u page) = Inr r"
    and "json_of r = Inr (JList items)" and "items \<noteq> []"
    and "for_each consume items acc (log_request (page_request u page) w) = Some (Raises e w2)"
  shows "pageWhileList_from net consume u base_params page acc w = Some (Raises e w2)"
  by (subst pageWhileList_from.simps) (simp add: get_page assms)

text \<open>
  A relation between the world before and the world after that is reflexive and
  transitive, that every page request respects and every step of the consumer
  respects, holds between the start and the end of every run that ends.
\<close>

lemma for_each_rel:
  assumes refl: "\<And>w. R w w"
    and trans: "\<And>a b c. R a b \<Longrightarrow> R b c \<Longrightarrow> R a c"
    and cons: "\<And>x a w out. consume x a w = Some out \<Longrightarrow> R w (world_of out)"
  shows "for_each consume xs acc w = Some out \<Longrightarrow> R w (world_of out)"
proof (induction xs arbitrary: acc w)
  case Nil
  then show ?case using refl by auto
next
  case (Cons x xs)
  show ?case
  proof (cases "consume x acc w")
    case None
    with Cons.prems show ?thesis by simp
  next
    case (Some o1)
    show ?thesis
    proof (cases o1)
      case (Returns a1 w1)
      with Some Cons.prems have "for_each consume xs a1 w1 = Some out" by simp
      then have "R w1 (world_of out)" by (rule Cons.IH)
      moreover have "R w w1" using cons [OF Some] Returns by simp
      ultimately show ?thesis by (rule trans [rotated])
    next
      case (Raises e w1)
      with Some Cons.prems have "out = Raises e w1" by simp
      then show ?thesis using cons [OF Some] Raises by simp
    qed
  qed
qed

lemma pageWhileList_from_rel_aux:
  assumes refl: "\<And>w. R w w"
    and trans: "\<And>a b c. R a b \<Longrightarrow> R b c \<Longrightarrow> R a c"
    and major: "pageWhileList_from net consume u base_params page acc w = Some out"
  shows "(\<forall>w page. R w (log_request (page_request u page) w)) \<longrightarrow>
    (\<forall>x a w out. consume x a w = Some out \<longrightarrow> R w (world_of out)) \<longrightarrow>
    R w (world_of out)"
  using major
proof (induct rule: pageWhileList_from.raw_induct [rotated 1, consumes 1])
  case (1 rec net consume u base_params page acc w out)
  show ?case
  proof (intro impI)
    assume req0: "\<forall>w page. R w (log_request (page_request u page) w)"
      and cons0: "\<forall>x a w out. consume x a w = Some out \<longrightarrow> R w (world_of out)"
    have cons: "\<And>x a w out. consume x a w = Some out \<Longrightarrow> R w (world_of out)"
      using cons0 by blast
    note IH = 1(1) and body = 1(2)
    let ?w1 = "log_request (page_request u page) w"
    have step: "R w ?w1" using req0 by blast
    show "R w (world_of out)"
    proof (cases "net (requests w) (page_request u page)")
      case (Inl e)
      with body have "out = Raises e ?w1" by (simp add: get_page)
      with step show ?thesis by simp
    next
      case (Inr r)
      show ?thesis
      proof (cases "\<exists>items. json_of r = Inr (JList items) \<and> items \<noteq> []")
        case False
        with body Inr have "world_of out = ?w1"
          by (auto simp: get_page split: sum.splits json.splits if_splits)
        with step show ?thesis by simp
      next
        case True
        then obtain items where items: "json_of r = Inr (JList items)" "items \<noteq> []"
          by blast
        show ?thesis
        proof (cases "for_each consume items acc ?w1")
          case None
          with body Inr items show ?thesis by (simp add: get_page)
        next
          case (Some o1)
          have r1: "R ?w1 (world_of o1)"
            using for_each_rel [of R consume items acc ?w1 o1] refl trans cons Some by blast
          show ?thesis
          proof (cases o1)
            case (Raises e w2)
            with body Inr items Some have "out = Raises e w2" by (simp add: get_page)
            with r1 Raises step show ?thesis using trans by auto
          next
            case (Returns acc' w2)
            with body Inr items Some
            have "rec net consume u base_params (page + 1) acc' w2 = Some out"
              by (simp add: get_page)
            then have "R w2 (world_of out)" using IH req0 cons0 by blast
            moreover have "R w w2" using step r1 Returns trans by auto
            ultimately show ?thesis using trans by blast
          qed
        qed
      qed
    qed
  qed
qed

lemma pageWhileList_from_rel:
  assumes "\<And>w. R w w"
    and "\<And>a b c. R a b \<Longrightarrow> R b c \<Longrightarrow> R a c"
    and "\<And>w page. R w (log_request (page_request u page) w)"
    and "\<And>x a w out. consume x a w = Some out \<Longrightarrow> R w (world_of out)"
    and "pageWhileList_from net consume u base_params page acc w = Some out"
  shows "R w (world_of out)"
  using pageWhileList_from_rel_aux [of R net consume u base_params page acc w out] assms
  by blast

text \<open>
  A server with the pages \<open>pages k, \<dots>, pages N\<close> left and nothing after them: the loop
  started at page \<open>k\<close> ends, having kept every element and asked for the pages
  \<open>k, \<dots>, N + 1\<close>, each once.
\<close>

lemma pages_from:
  assumes pages: "\<forall>h. \<forall>p \<in> {1..N}. \<exists>r. net h (page_request u p) = Inr r
        \<and> body r = Some (JList (pages p)) \<and> pages p \<noteq> []"
    and last: "\<forall>h. \<exists>r j. net h (page_request u (N + 1)) = Inr r \<and> body r = Some j
        \<and> \<not> nonempty_list j"
  shows "1 \<le> k \<Longrightarrow> k \<le> N + 1 \<Longrightarrow>
     pageWhileList_from net collect u base_params k acc w =
       Some (Returns (acc @ concat (map pages [k..N]))
              (w\<lparr>requests := requests w @ map (page_request u) [k..N + 1]\<rparr>))"
proof (induction "nat (N + 1 - k)" arbitrary: k acc w)
  case 0
  then have k: "k = N + 1" by simp
  from last obtain r j where r: "net (requests w) (page_request u (N + 1)) = Inr r"
    "body r = Some j" "\<not> nonempty_list j" by blast
  then have "json_of r = Inr j" by (simp add: json_of_def)
  with r have "pageWhileList_from net collect u base_params (N + 1) acc w =
         Some (Returns acc (log_request (page_request u (N + 1)) w))"
    by (intro pageWhileList_from_stop) auto
  then show ?case by (simp add: k log_request_def)
next
  case (Suc n)
  then have k: "1 \<le> k" "k \<le> N" by auto
  let ?w1 = "log_request (page_request u k) w"
  from pages k obtain r where r: "net (requests w) (page_request u k) = Inr r"
    "body r = Some (JList (pages k))" "pages k \<noteq> []" by (meson atLeastAtMost_iff)
  then have j: "json_of r = Inr (JList (pages k))" by (simp add: json_of_def)
  have "pageWhileList_from net collect u base_params k acc w =
        pageWhileList_from net collect u base_params (k + 1) (acc @ pages k) ?w1"
    using r(1) j r(3) for_each_collect by (rule pageWhileList_from_step)
  also have "\<dots> = Some (Returns ((acc @ pages k) @ concat (map pages [k + 1..N]))
              (?w1\<lparr>requests := requests ?w1 @ map (page_request u) [k + 1..N + 1]\<rparr>))"
    using Suc.hyps(2) k by (intro Suc.hyps(1)) auto
  also have "(acc @ pages k) @ concat (map pages [k + 1..N]) = acc @ concat (map pages [k..N])"
    using k by (simp add: upto_rec1 [of k N])
  also have "?w1\<lparr>requests := requests ?w1 @ map (page_request u) [k + 1..N + 1]\<rparr> =
      w\<lparr>requests := requests w @ map (page_request u) [k..N + 1]\<rparr>"
    using k by (simp add: log_request_def upto_rec1 [of k "N + 1"])
  finally show ?case .
qed

lemma two_page_net_pages:
  "\<forall>h. \<forall>p \<in> {1..2}. \<exists>r. two_page_net h (page_request u p) = Inr r
        \<and> body r = Some (JList (two_pages p)) \<and> two_pages p \<noteq> []"
proof (intro allI ballI)
  fix h :: "Request list" and p :: int
  assume "p \<in> {1..2}"
  then have "p = 1 \<or> p = 2" by auto
  then show "\<exists>r. two_page_net h (page_request u p) = Inr r
        \<and> body r = Some (JList (two_pages p)) \<and> two_pages p \<noteq> []"
    by (auto simp: two_page_net_def page_request_def two_pages_def)
qed

lemma two_page_net_last:
  "\<forall>h. \<exists>r j. two_page_net h (page_request u (2 + 1)) = Inr r \<and> body r = Some j
        \<and> \<not> nonempty_list j"
  by (simp add: two_page_net_def page_request_def nonempty_list_def)

lemma two_page_run:
  "pageWhileList two_page_net collect u base_params [] w =
     Some (Returns [JNum 5, JNum 6, JNum 7]
       (w\<lparr>requests := requests w @ [page_request u 1, page_request u 2, page_request u 3]\<rparr>))"
  unfolding pageWhileList_def
  using pages_from [OF two_page_net_pages two_page_net_last, of 1 u base_params "[]" w]
  by (simp add: two_pages_def upto_rec1)

subsection \<open>C1: the query parameters of a page request\<close>

text \<open>
  C1 says that every page request carries \<^verbatim>\<open>per_page=100\<close>, \<^verbatim>\<open>order=asc\<close> and
  \<^verbatim>\<open>orderby=id\<close> besides \<^verbatim>\<open>page=N\<close>. The code declares these as the default of the
  parameter \<^verbatim>\<open>base_params\<close> and then never reads the parameter: whatever
  \<open>base_params\<close> is, every request the fetcher sends is \<open>page_request u n\<close> for some
  \<open>n\<close>, whose only query parameter is \<^verbatim>\<open>page\<close>. (The consumer here is any consumer
  that sends no request of its own.)
\<close>

theorem pageWhileList_sends_only_page:
  assumes run: "pageWhileList net consume u base_params acc w = Some out"
    and quiet: "\<And>x a w out. consume x a w = Some out \<Longrightarrow> requests (world_of out) = requests w"
  shows "\<exists>ns. requests (world_of out) = requests w @ map (page_request u) ns
           \<and> list_all (\<lambda>r. params r = [(''page'', JNum (the_page r))]
                 \<and> map_of (params r) ''per_page'' = None
                 \<and> map_of (params r) ''order'' = None
                 \<and> map_of (params r) ''orderby'' = None) (map (page_request u) ns)"
proof -
  define R where "R = (\<lambda>(w :: world) (w' :: world).
      \<exists>ns. requests w' = requests w @ map (page_request u) ns)"
  have refl: "\<And>w. R w w" unfolding R_def by (metis append_Nil2 list.simps(8))
  have trans: "\<And>a b c. R a b \<Longrightarrow> R b c \<Longrightarrow> R a c"
    unfolding R_def by (metis append.assoc map_append)
  have req: "\<And>w page. R w (log_request (page_request u page) w)"
  proof -
    fix w page
    have "requests (log_request (page_request u page) w)
            = requests w @ map (page_request u) [page]"
      by (simp add: log_request_def)
    then show "R w (log_request (page_request u page) w)" unfolding R_def by blast
  qed
  have cons: "\<And>x a w out. consume x a w = Some out \<Longrightarrow> R w (world_of out)"
    using quiet refl unfolding R_def by (metis append_Nil2 list.simps(8))
  have "R w (world_of out)"
    using refl trans req cons run [unfolded pageWhileList_def]
    by (rule pageWhileList_from_rel)
  then obtain ns where ns: "requests (world_of out) = requests w @ map (page_request u) ns"
    unfolding R_def by blast
  have "list_all (\<lambda>r. params r = [(''page'', JNum (the_page r))]
                 \<and> map_of (params r) ''per_page'' = None
                 \<and> map_of (params r) ''order'' = None
                 \<and> map_of (params r) ''orderby'' = None) (map (page_request u) ns)"
    by (simp add: list_all_iff page_request_def the_page_def)
  with ns show ?thesis by blast
qed

theorem pageWhileList_sends_only_page_witness:
  "\<exists>ns. requests (world_of (Returns [JNum 5, JNum 6, JNum 7]
             ((fresh_world Map.empty)\<lparr>requests := [page_request ''https://ambiguiti.es/wp-json/wp/v2/posts'' 1,
                page_request ''https://ambiguiti.es/wp-json/wp/v2/posts'' 2,
                page_request ''https://ambiguiti.es/wp-json/wp/v2/posts'' 3]\<rparr>)))
          = map (page_request ''https://ambiguiti.es/wp-json/wp/v2/posts'') ns
        \<and> list_all (\<lambda>r. params r = [(''page'', JNum (the_page r))]
                 \<and> map_of (params r) ''per_page'' = None
                 \<and> map_of (params r) ''order'' = None
                 \<and> map_of (params r) ''orderby'' = None)
            (map (page_request ''https://ambiguiti.es/wp-json/wp/v2/posts'') ns)"
proof -
  have run: "pageWhileList two_page_net collect ''https://ambiguiti.es/wp-json/wp/v2/posts''
      default_base_params [] (fresh_world Map.empty) =
     Some (Returns [JNum 5, JNum 6, JNum 7]
             ((fresh_world Map.empty)\<lparr>requests := [page_request ''https://ambiguiti.es/wp-json/wp/v2/posts'' 1,
                page_request ''https://ambiguiti.es/wp-json/wp/v2/posts'' 2,
                page_request ''https://ambiguiti.es/wp-json/wp/v2/posts'' 3]\<rparr>))"
    using two_page_run [of "''https://ambiguiti.es/wp-json/wp/v2/posts''" default_base_params
        "fresh_world Map.empty"]
    by (simp add: fresh_world_def)
  have quiet: "\<And>x a w out. collect x a w = Some out \<Longrightarrow> requests (world_of out) = requests w"
    by (auto simp: collect_def)
  show ?thesis
    using pageWhileList_sends_only_page [OF run quiet] by (simp add: fresh_world_def)
qed

subsection \<open>C2: the fetcher yields every page, in order, and stops\<close>

text \<open>
  C2. A server answers the requests for the pages \<open>1, \<dots>, N\<close> with the non-empty
  lists \<open>pages 1, \<dots>, pages N\<close> and the request for page \<open>N + 1\<close> with a body that is
  an empty list or no list. Then the fetcher ends; it has yielded exactly the
  elements of the pages \<open>1, \<dots>, N\<close> in order, and the requests it has sent are those
  for the pages \<open>1, \<dots>, N + 1\<close>, each once and in this order, and no other.
\<close>

theorem pageWhileList_yields_all_pages:
  assumes "0 \<le> N"
    and "\<forall>h. \<forall>p \<in> {1..N}. \<exists>r. net h (page_request u p) = Inr r
        \<and> body r = Some (JList (pages p)) \<and> pages p \<noteq> []"
    and "\<forall>h. \<exists>r j. net h (page_request u (N + 1)) = Inr r \<and> body r = Some j
        \<and> \<not> nonempty_list j"
  shows "pageWhileList net collect u base_params [] w =
       Some (Returns (concat (map pages [1..N]))
              (w\<lparr>requests := requests w @ map (page_request u) [1..N + 1]\<rparr>))"
  unfolding pageWhileList_def
  using pages_from [OF assms(2,3), of 1 base_params "[]" w] assms(1) by simp

theorem pageWhileList_yields_all_pages_witness:
  "pageWhileList two_page_net collect ''https://ambiguiti.es/wp-json/wp/v2/posts''
       default_base_params [] (fresh_world Map.empty) =
     Some (Returns [JNum 5, JNum 6, JNum 7]
       ((fresh_world Map.empty)\<lparr>requests :=
           [page_request ''https://ambiguiti.es/wp-json/wp/v2/posts'' 1,
            page_request ''https://ambiguiti.es/wp-json/wp/v2/posts'' 2,
            page_request ''https://ambiguiti.es/wp-json/wp/v2/posts'' 3]\<rparr>))"
  using pageWhileList_yields_all_pages [of 2 two_page_net
      "''https://ambiguiti.es/wp-json/wp/v2/posts''" two_pages default_base_params
      "fresh_world Map.empty", OF _ two_page_net_pages two_page_net_last]
  by (simp add: two_pages_def fresh_world_def upto_rec1)

subsection \<open>Numerals and timestamps as text\<close>

lemma decimal_small: "n < 10 \<Longrightarrow> decimal n = [digit_chars ! n]"
  by (simp add: decimal.simps)

lemma decimal_large: "\<not> n < 10 \<Longrightarrow> decimal n = decimal (n div 10) @ [digit_chars ! (n mod 10)]"
  by (subst decimal.simps) simp

lemma format_offset_zero: "format_offset 0 = ''+00:00''"
  by (simp add: format_offset_def zero_pad_def decimal_small digit_chars_def)

lemma isoformat_utc:
  "tzinfo dt = Some pytz_UTC \<Longrightarrow> isoformat dt = isoformat_naive dt @ ''+00:00''"
  by (simp add: isoformat_def utcoffset_def format_offset_zero)

lemma isoformat_naive_tzinfo: "isoformat_naive (dt\<lparr>tzinfo := tz\<rparr>) = isoformat_naive dt"
  by (simp add: isoformat_naive_def)

lemma isoformat_utc_2020_01_02: "isoformat utc_2020_01_02 = ''2020-01-02T03:04:05+00:00''"
  by (simp add: isoformat_utc utc_2020_01_02_def isoformat_naive_def zero_pad_def
      decimal_small decimal_large digit_chars_def)

lemma isoformat_utc_2020_02_03: "isoformat utc_2020_02_03 = ''2020-02-03T04:05:06+00:00''"
  by (simp add: isoformat_utc utc_2020_02_03_def isoformat_naive_def zero_pad_def
      decimal_small decimal_large digit_chars_def)

subsection \<open>The characters \<^verbatim>\<open>json.dumps\<close> writes\<close>

lemma printable_punct [simp]:
  "printable CHR ''[''" "printable CHR '']''" "printable CHR ''{''" "printable CHR ''}''"
  "printable CHR '',''" "printable CHR '' ''" "printable CHR '':''" "printable QUOTE"
  "printable CHR ''-''" "printable CHR ''0''" "printable BACKSLASH"
  by (simp_all add: printable_def)

lemma not_printable_NEWLINE: "\<not> printable NEWLINE"
  by (simp add: printable_def)

lemma printable_digit_chars: "list_all printable digit_chars"
  by (simp add: digit_chars_def printable_def)

lemma printable_hex_chars: "list_all printable hex_chars"
  by (simp add: hex_chars_def printable_def)

lemma printable_decimal: "list_all printable (decimal n)"
proof (induction n rule: decimal.induct)
  case (1 n)
  have d: "\<And>k. k < 10 \<Longrightarrow> printable (digit_chars ! k)"
    using printable_digit_chars by (simp add: list_all_length digit_chars_def)
  show ?case
  proof (cases "n < 10")
    case True
    then show ?thesis by (simp add: decimal_small d)
  next
    case False
    then show ?thesis using 1 by (simp add: decimal_large d)
  qed
qed

lemma of_char_less_256: "(of_char c :: nat) < 256"
proof -
  have "(of_char c :: nat) mod 256 = of_char c" by simp
  moreover have "(of_char c :: nat) mod 256 < 256" by simp
  ultimately show ?thesis by simp
qed

lemma printable_int_repr: "list_all printable (int_repr i)"
  using printable_decimal by (simp add: int_repr_def)

lemma printable_escape_char: "list_all printable (escape_char c)"
proof -
  have h: "\<And>k. k < 16 \<Longrightarrow> printable (hex_chars ! k)"
    using printable_hex_chars by (simp add: list_all_length hex_chars_def)
  have "of_char c div 16 < (16::nat)" "of_char c mod 16 < (16::nat)"
    using of_char_less_256 [of c] by (simp_all add: less_mult_imp_div_less)
  then show ?thesis
    by (simp add: escape_char_def Let_def h) (simp add: printable_def)
qed

lemma printable_encode: "list_all printable (encode_basestring_ascii s)"
  using printable_escape_char
  by (auto simp: encode_basestring_ascii_def list_all_iff)

lemma printable_join:
  "list_all printable sep \<Longrightarrow> list_all (list_all printable) xs \<Longrightarrow> list_all printable (join sep xs)"
  by (induction sep xs rule: join.induct) simp_all

lemma printable_json_dumps: "list_all printable (json_dumps j)"
proof (induction j)
  case JNull
  show ?case by (simp add: printable_def)
next
  case (JBool b)
  show ?case by (simp add: printable_def)
next
  case (JNum i)
  show ?case by (simp add: printable_int_repr)
next
  case (JStr s)
  show ?case by (simp add: printable_encode)
next
  case (JList xs)
  then have "list_all (list_all printable) (map json_dumps xs)"
    by (simp add: list_all_iff)
  then have "list_all printable (join '', '' (map json_dumps xs))"
    by (intro printable_join) simp_all
  then show ?case by simp
next
  case (JObj items)
  have "list_all (list_all printable)
     (map (\<lambda>kv. encode_basestring_ascii (fst kv) @ '': '' @ json_dumps (snd kv)) items)"
    unfolding list_all_iff
  proof (rule ballI)
    fix t
    assume "t \<in> set (map (\<lambda>kv. encode_basestring_ascii (fst kv) @ '': '' @ json_dumps (snd kv)) items)"
    then obtain kv where kv: "kv \<in> set items"
      and t: "t = encode_basestring_ascii (fst kv) @ '': '' @ json_dumps (snd kv)" by auto
    have "list_all printable (json_dumps (snd kv))"
      using JObj kv by (cases kv) auto
    then show "\<forall>c \<in> set t. printable c"
      using printable_encode [of "fst kv"] by (auto simp: t list_all_iff)
  qed
  then have "list_all printable (join '', ''
     (map (\<lambda>kv. encode_basestring_ascii (fst kv) @ '': '' @ json_dumps (snd kv)) items))"
    by (intro printable_join) simp_all
  then show ?case by simp
qed

lemma printable_front_matter: "list_all printable (front_matter p)"
  unfolding front_matter_def by (rule printable_json_dumps)

lemma split_on_prefix:
  "c \<notin> set a \<Longrightarrow> split_on c (a @ c # b) = a # split_on c b"
proof (induction a)
  case Nil
  show ?case by simp
next
  case (Cons x a)
  then show ?case by auto
qed

subsection \<open>The text of the front matter\<close>

lemma encode_keys:
  "encode_basestring_ascii ''title'' = quoted ''title''"
  "encode_basestring_ascii ''categories'' = quoted ''categories''"
  "encode_basestring_ascii ''tags'' = quoted ''tags''"
  "encode_basestring_ascii ''aliases'' = quoted ''aliases''"
  "encode_basestring_ascii ''author'' = quoted ''author''"
  "encode_basestring_ascii ''date'' = quoted ''date''"
  "encode_basestring_ascii ''lastmod'' = quoted ''lastmod''"
  "encode_basestring_ascii ''slug'' = quoted ''slug''"
  "encode_basestring_ascii ''summary'' = quoted ''summary''"
  by (simp_all add: encode_basestring_ascii_def escape_char_def quoted_def)

lemma json_dumps_strings: "json_dumps (JList (map JStr xs)) = string_array xs"
  by (simp add: string_array_def comp_def)

lemma front_matter_text:
  "front_matter p =
     ''{'' @ quoted ''title'' @ '': '' @ encode_basestring_ascii (title p)
     @ '', '' @ quoted ''categories'' @ '': '' @ string_array (categories p)
     @ '', '' @ quoted ''tags'' @ '': '' @ string_array (tags p)
     @ '', '' @ quoted ''aliases'' @ '': '' @ string_array (aliases p)
     @ '', '' @ quoted ''author'' @ '': '' @ encode_basestring_ascii (author p)
     @ '', '' @ quoted ''date'' @ '': '' @ encode_basestring_ascii (isoformat (published p))
     @ '', '' @ quoted ''lastmod'' @ '': '' @ encode_basestring_ascii (isoformat (modified p))
     @ '', '' @ quoted ''slug'' @ '': '' @ encode_basestring_ascii (slug p)
     @ '', '' @ quoted ''summary'' @ '': '' @ encode_basestring_ascii (summary p)
     @ ''}''"
  unfolding front_matter_def
  by (simp add: encode_keys json_dumps_strings del: json_dumps.simps(5))

subsection \<open>C5: the rendered document\<close>

text \<open>
  C5. For every post, the rendered document \<^verbatim>\<open>Post.md\<close> is one JSON object whose keys
  are \<^verbatim>\<open>title\<close>, \<^verbatim>\<open>categories\<close>, \<^verbatim>\<open>tags\<close>, \<^verbatim>\<open>aliases\<close>, \<^verbatim>\<open>author\<close>, \<^verbatim>\<open>date\<close>,
  \<^verbatim>\<open>lastmod\<close>, \<^verbatim>\<open>slug\<close>, \<^verbatim>\<open>summary\<close> in this order, then a blank line (two line
  breaks), then the content text as it is. Only the values inside the object are
  escaped, by the rules of the serialization; nothing is done to the content.
\<close>

theorem md_is_front_matter_blank_line_content:
  "md p =
     ''{'' @ quoted ''title'' @ '': '' @ encode_basestring_ascii (title p)
     @ '', '' @ quoted ''categories'' @ '': '' @ string_array (categories p)
     @ '', '' @ quoted ''tags'' @ '': '' @ string_array (tags p)
     @ '', '' @ quoted ''aliases'' @ '': '' @ string_array (aliases p)
     @ '', '' @ quoted ''author'' @ '': '' @ encode_basestring_ascii (author p)
     @ '', '' @ quoted ''date'' @ '': '' @ encode_basestring_ascii (isoformat (published p))
     @ '', '' @ quoted ''lastmod'' @ '': '' @ encode_basestring_ascii (isoformat (modified p))
     @ '', '' @ quoted ''slug'' @ '': '' @ encode_basestring_ascii (slug p)
     @ '', '' @ quoted ''summary'' @ '': '' @ encode_basestring_ascii (summary p)
     @ ''}'' @ [NEWLINE, NEWLINE] @ content p"
  unfolding md_def by (simp add: front_matter_text)

theorem md_is_front_matter_blank_line_content_witness:
  "md hello_post =
     ''{'' @ quoted ''title'' @ '': '' @ quoted ''A & B''
     @ '', '' @ quoted ''categories'' @ '': ['' @ quoted ''News'' @ '', '' @ quoted ''Events'' @ '']''
     @ '', '' @ quoted ''tags'' @ '': []''
     @ '', '' @ quoted ''aliases'' @ '': []''
     @ '', '' @ quoted ''author'' @ '': '' @ quoted ''''
     @ '', '' @ quoted ''date'' @ '': '' @ quoted ''2020-01-02T03:04:05+00:00''
     @ '', '' @ quoted ''lastmod'' @ '': '' @ quoted ''2020-02-03T04:05:06+00:00''
     @ '', '' @ quoted ''slug'' @ '': '' @ quoted ''hello-world''
     @ '', '' @ quoted ''summary'' @ '': '' @ quoted ''Tom''
     @ ''}'' @ [NEWLINE, NEWLINE] @ ''<p>Tom & Jerry</p>''"
  using md_is_front_matter_blank_line_content [of hello_post]
  by (simp add: hello_post_def isoformat_utc_2020_01_02 isoformat_utc_2020_02_03
      string_array_def encode_basestring_ascii_def escape_char_def quoted_def)

subsection \<open>C10: the front matter is one line\<close>

text \<open>
  C10. Whatever the title, content, summary, slug, author, categories and tags of a
  post hold, line breaks included, the serialized front matter holds printable ASCII
  characters only and so no line break: split at the line breaks, the rendered
  document has the whole front matter as its first line and the empty line as its
  second, and the lines of the content follow.
\<close>

theorem front_matter_is_first_line:
  "list_all printable (front_matter p)
   \<and> NEWLINE \<notin> set (front_matter p)
   \<and> split_on NEWLINE (md p) = front_matter p # [] # split_on NEWLINE (content p)"
proof -
  have p: "list_all printable (front_matter p)" by (rule printable_front_matter)
  then have n: "NEWLINE \<notin> set (front_matter p)"
    using not_printable_NEWLINE by (auto simp: list_all_iff)
  have "split_on NEWLINE (md p) = front_matter p # split_on NEWLINE (NEWLINE # content p)"
    unfolding md_def using split_on_prefix [OF n, of "NEWLINE # content p"] by simp
  then show ?thesis using p n by simp
qed

theorem front_matter_is_first_line_witness:
  "NEWLINE \<notin> set (front_matter awkward_post)
   \<and> split_on NEWLINE (md awkward_post) = [front_matter awkward_post, [], ''x'', [], ''y'']
   \<and> title awkward_post = [CHR ''a'', NEWLINE, CHR ''b'']"
  using front_matter_is_first_line [of awkward_post]
  by (simp add: awkward_post_def)

subsection \<open>Resolving IDs through a memoized dictionary\<close>

lemma resolve_name_hit:
  assumes "memo w = Some (Returns d w')" and "name_in d i = Some n"
  shows "resolve_name memo i acc w = Some (Returns (acc @ [n]) w')"
  using assms
  by (auto simp: resolve_name_def name_in_def split: sum.splits json.splits)

lemma for_each_resolve:
  assumes memo: "memo w = Some (Returns d w)"
  shows "\<forall>i \<in> set ids. name_in d i \<noteq> None \<Longrightarrow>
     for_each (resolve_name memo) ids acc w = Some (Returns (acc @ map (\<lambda>i. the (name_in d i)) ids) w)"
proof (induction ids arbitrary: acc)
  case Nil
  show ?case by simp
next
  case (Cons i ids)
  then obtain n where n: "name_in d i = Some n" by auto
  have "resolve_name memo i acc w = Some (Returns (acc @ [n]) w)"
    using resolve_name_hit [of memo w d w i n acc] memo n by simp
  then show ?case using Cons n by simp
qed

lemma resolve_names_all:
  assumes first: "ids \<noteq> [] \<Longrightarrow> memo w = Some (Returns d w1)"
    and again: "ids \<noteq> [] \<Longrightarrow> memo w1 = Some (Returns d w1)"
    and present: "\<forall>i \<in> set ids. name_in d i \<noteq> None"
    and field: "subscript data k = Inr (JList ids)"
  shows "resolve_names memo data k w =
     Some (Returns (map (\<lambda>i. the (name_in d i)) ids) (if ids = [] then w else w1))"
proof (cases ids)
  case Nil
  then show ?thesis using field by (simp add: resolve_names_def)
next
  case (Cons i rest)
  then obtain n where n: "name_in d i = Some n" using present by auto
  have m: "memo w = Some (Returns d w1)" "memo w1 = Some (Returns d w1)"
    using first again Cons by simp_all
  have 1: "resolve_name memo i [] w = Some (Returns [n] w1)"
    using resolve_name_hit [of memo w d w1 i n "[]"] m(1) n by simp
  have "\<forall>i \<in> set rest. name_in d i \<noteq> None" using present Cons by simp
  then have 2: "for_each (resolve_name memo) rest [n] w1 =
      Some (Returns ([n] @ map (\<lambda>i. the (name_in d i)) rest) w1)"
    using for_each_resolve [of memo w1 d rest "[n]"] m(2) by blast
  show ?thesis using field Cons 1 2 n by (simp add: resolve_names_def)
qed

lemma Extractor_categories_again:
  assumes "Extractor_categories net base_url w = Some (Returns d w1)"
  shows "Extractor_categories net base_url w1 = Some (Returns d w1)"
    and "categories_memo w1 = Some d"
  using assms
  by (auto simp: Extractor_categories_def split: option.splits outcome.splits)

lemma Extractor_tags_again:
  assumes "Extractor_tags net base_url w = Some (Returns d w1)"
  shows "Extractor_tags net base_url w1 = Some (Returns d w1)"
    and "tags_memo w1 = Some d"
  using assms
  by (auto simp: Extractor_tags_def split: option.splits outcome.splits)

lemma rendered_string:
  assumes "subscript data k = Inr f" and "subscript f ''rendered'' = Inr (JStr s)"
  shows "rendered unescape data k = Inr (unescape s)"
  using assms by (simp add: rendered_def)

subsection \<open>C3: the fields of a normalized post\<close>

text \<open>
  C3. A raw post record carries its timestamps, its slug, the rendered title, content
  and excerpt, and the lists of its category and tag IDs; every ID has a name in the
  reference dictionary (the memoized one, or the one the first access fetches; a
  dictionary is only read when its list of IDs is not empty). Then \<^verbatim>\<open>enhance_post\<close>
  returns the post whose categories and tags are the names of the IDs in the order of
  the ID lists, whose title, content and summary are the rendered fields passed
  through \<^verbatim>\<open>unescape\<close>, whose slug is the record's slug, whose aliases are empty and
  whose author is the empty string.
\<close>

theorem enhance_post_fields:
  assumes pub: "utc_timestamp data ''date_gmt'' = Inr pub"
    and modi: "utc_timestamp data ''modified_gmt'' = Inr modi"
    and ti: "subscript data ''title'' = Inr tf" "subscript tf ''rendered'' = Inr (JStr t)"
    and sl: "subscript data ''slug'' = Inr (JStr sl)"
    and co: "subscript data ''content'' = Inr cf" "subscript cf ''rendered'' = Inr (JStr c)"
    and su: "subscript data ''excerpt'' = Inr ef" "subscript ef ''rendered'' = Inr (JStr e)"
    and cids: "subscript data ''categories'' = Inr (JList cids)"
    and tids: "subscript data ''tags'' = Inr (JList tids)"
    and cdict: "cids \<noteq> [] \<Longrightarrow> Extractor_categories net base_url w = Some (Returns cd wc)"
    and tdict: "tids \<noteq> [] \<Longrightarrow>
        Extractor_tags net base_url (if cids = [] then w else wc) = Some (Returns td wt)"
    and cnames: "\<forall>i \<in> set cids. name_in cd i \<noteq> None"
    and tnames: "\<forall>i \<in> set tids. name_in td i \<noteq> None"
  shows "enhance_post unescape net base_url data w =
     Some (Returns
       \<lparr>published = pub, modified = modi, title = unescape t, slug = sl,
        content = unescape c, summary = unescape e, aliases = [],
        categories = map (\<lambda>i. the (name_in cd i)) cids,
        tags = map (\<lambda>i. the (name_in td i)) tids, author = []\<rparr>
       (if tids = [] then (if cids = [] then w else wc) else wt))"
proof -
  let ?w1 = "if cids = [] then w else wc"
  have c: "resolve_names (Extractor_categories net base_url) data ''categories'' w =
      Some (Returns (map (\<lambda>i. the (name_in cd i)) cids) ?w1)"
    using cdict Extractor_categories_again(1) [of net base_url w cd wc] cnames cids
    by (intro resolve_names_all) auto
  have t: "resolve_names (Extractor_tags net base_url) data ''tags'' ?w1 =
      Some (Returns (map (\<lambda>i. the (name_in td i)) tids) (if tids = [] then ?w1 else wt))"
    using tdict Extractor_tags_again(1) [of net base_url ?w1 td wt] tnames tids
    by (intro resolve_names_all) auto
  show ?thesis
    unfolding enhance_post_def
    by (simp add: pub modi sl slug_of_def c t
        rendered_string [OF ti] rendered_string [OF co] rendered_string [OF su])
qed

subsection \<open>The sample blog, evaluated\<close>

lemmas parser_defs =
  fromisoformat_def parse_isoformat_date_def parse_isoformat_time_def parse_hh_mm_ss_ff_def
  two_digits_def parse_digits_def digit_value_def new_datetime_def days_in_month_def
  is_leap_def is_sign_def localize_def

lemma hello_raw_timestamps:
  "utc_timestamp hello_raw ''date_gmt'' = Inr utc_2020_01_02"
  "utc_timestamp hello_raw ''modified_gmt'' = Inr utc_2020_02_03"
  by (simp_all add: utc_timestamp_def hello_raw_def parser_defs utc_2020_01_02_def
      utc_2020_02_03_def)

lemma amp_unescape_Nil: "amp_unescape [] = []"
  by (simp add: amp_unescape.simps)

lemma amp_unescape_amp: "take 5 s = ''&amp;'' \<Longrightarrow> amp_unescape s = CHR ''&'' # amp_unescape (drop 5 s)"
  by (subst amp_unescape.simps) simp

lemma amp_unescape_other:
  "take 5 (c # cs) \<noteq> ''&amp;'' \<Longrightarrow> amp_unescape (c # cs) = c # amp_unescape cs"
  by (subst amp_unescape.simps) auto

lemma amp_unescape_samples:
  "amp_unescape ''A &amp; B'' = ''A & B''"
  "amp_unescape ''<p>Tom &amp; Jerry</p>'' = ''<p>Tom & Jerry</p>''"
  "amp_unescape ''Tom'' = ''Tom''"
  by (simp_all add: amp_unescape_Nil amp_unescape_amp amp_unescape_other)

lemma sample_names:
  "name_in sample_categories (JNum 3) = Some ''News''"
  "name_in sample_categories (JNum 7) = Some ''Events''"
  "name_in sample_categories (JNum 9) = None"
  by (simp_all add: name_in_def dict_getitem_def sample_categories_def news_raw_def events_raw_def)

lemma blog_categories_fetch:
  assumes "categories_memo w = None"
  shows "Extractor_categories blog_net blog_url w =
     Some (Returns sample_categories
       (w\<lparr>requests := requests w @
            [page_request (blog_url @ ''/wp-json/wp/v2/categories'') 1,
             page_request (blog_url @ ''/wp-json/wp/v2/categories'') 2],
          categories_memo := Some sample_categories\<rparr>))"
proof -
  let ?u = "blog_url @ ''/wp-json/wp/v2/categories''"
  let ?w1 = "log_request (page_request ?u 1) w"
  have 1: "blog_net (requests w) (page_request ?u 1) =
      Inr \<lparr>status_code = 200, body = Some (JList [news_raw, events_raw])\<rparr>"
    by (simp add: blog_net_def page_request_def blog_url_def)
  have 2: "blog_net (requests ?w1) (page_request ?u 2) = Inr error_response"
    by (simp add: blog_net_def page_request_def blog_url_def)
  have items: "for_each index_by_id [news_raw, events_raw] [] ?w1 =
      Some (Returns sample_categories ?w1)"
    by (simp add: index_by_id_def news_raw_def events_raw_def dict_setitem_def
        sample_categories_def)
  have "pageWhileList_from blog_net index_by_id ?u default_base_params 1 [] w =
        pageWhileList_from blog_net index_by_id ?u default_base_params (1 + 1) sample_categories ?w1"
    using 1 _ _ items by (rule pageWhileList_from_step) (simp_all add: json_of_def)
  also have "\<dots> = Some (Returns sample_categories (log_request (page_request ?u 2) ?w1))"
    using pageWhileList_from_stop [of blog_net ?w1 ?u 2 error_response _ index_by_id
        default_base_params sample_categories] 2
    by (simp add: json_of_def error_response_def nonempty_list_def)
  finally show ?thesis
    using assms by (simp add: Extractor_categories_def pageWhileList_def log_request_def)
qed

text \<open>The first post of the sample blog, normalized in a world with no memoized categories.\<close>

lemma hello_run:
  assumes "categories_memo w = None"
  shows "enhance_post amp_unescape blog_net blog_url hello_raw w =
     Some (Returns hello_post
       (w\<lparr>requests := requests w @
            [page_request (blog_url @ ''/wp-json/wp/v2/categories'') 1,
             page_request (blog_url @ ''/wp-json/wp/v2/categories'') 2],
          categories_memo := Some sample_categories\<rparr>))"
proof -
  let ?w1 = "w\<lparr>requests := requests w @
            [page_request (blog_url @ ''/wp-json/wp/v2/categories'') 1,
             page_request (blog_url @ ''/wp-json/wp/v2/categories'') 2],
          categories_memo := Some sample_categories\<rparr>"
  have again: "Extractor_categories blog_net blog_url ?w1 = Some (Returns sample_categories ?w1)"
    by (simp add: Extractor_categories_def)
  have f: "subscript hello_raw ''categories'' = Inr (JList [JNum 3, JNum 7])"
    by (simp add: hello_raw_def)
  have "resolve_names (Extractor_categories blog_net blog_url) hello_raw ''categories'' w =
      Some (Returns (map (\<lambda>i. the (name_in sample_categories i)) [JNum 3, JNum 7])
        (if [JNum 3, JNum 7] = [] then w else ?w1))"
    using blog_categories_fetch [OF assms] again f
    by (intro resolve_names_all) (simp_all add: sample_names)
  then have c: "resolve_names (Extractor_categories blog_net blog_url) hello_raw ''categories'' w =
      Some (Returns [''News'', ''Events''] ?w1)"
    by (simp add: sample_names)
  have t: "resolve_names (Extractor_tags blog_net blog_url) hello_raw ''tags'' ?w1 =
      Some (Returns [] ?w1)"
    by (simp add: resolve_names_def hello_raw_def)
  have r: "rendered amp_unescape hello_raw ''title'' = Inr ''A & B''"
    "rendered amp_unescape hello_raw ''content'' = Inr ''<p>Tom & Jerry</p>''"
    "rendered amp_unescape hello_raw ''excerpt'' = Inr ''Tom''"
    by (simp_all add: rendered_def hello_raw_def amp_unescape_samples)
  have s: "slug_of hello_raw = Inr ''hello-world''"
    by (simp add: slug_of_def hello_raw_def)
  show ?thesis
    unfolding enhance_post_def
    by (simp add: hello_raw_timestamps r s c t hello_post_def)
qed

theorem enhance_post_fields_witness:
  "enhance_post amp_unescape blog_net blog_url hello_raw (fresh_world Map.empty) =
     Some (Returns hello_post
       ((fresh_world Map.empty)\<lparr>requests :=
            [page_request (blog_url @ ''/wp-json/wp/v2/categories'') 1,
             page_request (blog_url @ ''/wp-json/wp/v2/categories'') 2],
          categories_memo := Some sample_categories\<rparr>))"
proof -
  have memo: "categories_memo (fresh_world Map.empty) = None" by (simp add: fresh_world_def)
  have "enhance_post amp_unescape blog_net blog_url hello_raw (fresh_world Map.empty) =
     Some (Returns
       \<lparr>published = utc_2020_01_02, modified = utc_2020_02_03,
        title = amp_unescape ''A &amp; B'', slug = ''hello-world'',
        content = amp_unescape ''<p>Tom &amp; Jerry</p>'', summary = amp_unescape ''Tom'',
        aliases = [],
        categories = map (\<lambda>i. the (name_in sample_categories i)) [JNum 3, JNum 7],
        tags = map (\<lambda>i. the (name_in [] i)) [], author = []\<rparr>
       (if [] = ([] :: json list) then
          (if [JNum 3, JNum 7] = [] then fresh_world Map.empty
           else (fresh_world Map.empty)\<lparr>requests := requests (fresh_world Map.empty) @
              [page_request (blog_url @ ''/wp-json/wp/v2/categories'') 1,
               page_request (blog_url @ ''/wp-json/wp/v2/categories'') 2],
             categories_memo := Some sample_categories\<rparr>)
        else fresh_world Map.empty))"
    by (rule enhance_post_fields [where tf = "JObj [(''rendered'', JStr ''A &amp; B'')]"
          and cf = "JObj [(''rendered'', JStr ''<p>Tom &amp; Jerry</p>'')]"
          and ef = "JObj [(''rendered'', JStr ''Tom'')]"])
       (simp_all add: hello_raw_timestamps blog_categories_fetch [OF memo] sample_names,
        simp_all add: hello_raw_def)
  then show ?thesis
    by (simp add: amp_unescape_samples sample_names hello_post_def fresh_world_def)
qed

subsection \<open>Timestamps in the front matter\<close>

lemma escape_char_plain: "plain c \<Longrightarrow> escape_char c = [c]"
  by (auto simp: plain_def printable_def escape_char_def Let_def)

lemma encode_plain: "list_all plain s \<Longrightarrow> encode_basestring_ascii s = quoted s"
proof -
  assume "list_all plain s"
  then have "concat (map escape_char s) = s"
    by (induction s) (simp_all add: escape_char_plain)
  then show ?thesis by (simp add: encode_basestring_ascii_def quoted_def)
qed

lemma plain_punct [simp]:
  "plain CHR ''-''" "plain CHR ''T''" "plain CHR '':''" "plain CHR ''.''" "plain CHR ''+''"
  "plain CHR ''0''"
  by (simp_all add: plain_def printable_def)

lemma plain_decimal: "list_all plain (decimal n)"
proof (induction n rule: decimal.induct)
  case (1 n)
  have d: "\<And>k. k < 10 \<Longrightarrow> plain (digit_chars ! k)"
  proof -
    fix k :: nat
    assume "k < 10"
    moreover have "list_all plain digit_chars"
      by (simp add: digit_chars_def plain_def printable_def)
    ultimately show "plain (digit_chars ! k)"
      by (simp add: list_all_length digit_chars_def)
  qed
  show ?case
  proof (cases "n < 10")
    case True
    then show ?thesis by (simp add: decimal_small d)
  next
    case False
    then show ?thesis using 1 by (simp add: decimal_large d)
  qed
qed

lemma plain_zero_pad: "list_all plain (zero_pad k n)"
  using plain_decimal [of n] by (auto simp: zero_pad_def list_all_iff)

lemma plain_isoformat_naive: "list_all plain (isoformat_naive dt)"
  by (simp add: isoformat_naive_def plain_zero_pad)

lemma utc_timestamp_naive:
  assumes "subscript data k = Inr (JStr s)" and "fromisoformat s = Inr dt" and "tzinfo dt = None"
  shows "utc_timestamp data k = Inr (dt\<lparr>tzinfo := Some pytz_UTC\<rparr>)"
  using assms by (simp add: utc_timestamp_def localize_def)

lemma enhance_post_timestamps:
  assumes "enhance_post unescape net base_url data w = Some (Returns post w')"
  shows "utc_timestamp data ''date_gmt'' = Inr (published post)"
    and "utc_timestamp data ''modified_gmt'' = Inr (modified post)"
  using assms
  by (auto simp: enhance_post_def split: sum.splits option.splits outcome.splits)

lemma encode_utc:
  "encode_basestring_ascii (isoformat (dt\<lparr>tzinfo := Some pytz_UTC\<rparr>)) =
     quoted (isoformat_naive dt @ ''+00:00'')"
proof -
  have "isoformat (dt\<lparr>tzinfo := Some pytz_UTC\<rparr>) = isoformat_naive dt @ ''+00:00''"
    by (simp add: isoformat_utc isoformat_naive_tzinfo)
  moreover have "list_all plain (isoformat_naive dt @ ''+00:00'')"
    by (simp add: plain_isoformat_naive)
  ultimately show ?thesis by (simp add: encode_plain)
qed

subsection \<open>C7: timestamps without an offset are tagged UTC\<close>

text \<open>
  C7. The strings under \<^verbatim>\<open>date_gmt\<close> and \<^verbatim>\<open>modified_gmt\<close> of a raw record are ISO
  timestamps without an offset: \<^verbatim>\<open>fromisoformat\<close> reads them as timestamps \<open>d\<close> and \<open>m\<close>
  with no zone. Then the timestamp step of the normalizer does not raise, it gives
  \<open>d\<close> and \<open>m\<close> tagged UTC; and in every post \<^verbatim>\<open>enhance_post\<close> returns for the record,
  \<^verbatim>\<open>published\<close> and \<^verbatim>\<open>modified\<close> are these, their ISO rendering is the naive rendering
  followed by \<^verbatim>\<open>+00:00\<close>, and the front matter holds them so under \<^verbatim>\<open>date\<close> and
  \<^verbatim>\<open>lastmod\<close>.
\<close>

theorem offset_free_timestamps_are_utc:
  assumes date: "subscript data ''date_gmt'' = Inr (JStr s)"
      "fromisoformat s = Inr d" "tzinfo d = None"
    and lastmod: "subscript data ''modified_gmt'' = Inr (JStr s')"
      "fromisoformat s' = Inr m" "tzinfo m = None"
    and run: "enhance_post unescape net base_url data w = Some (Returns post w')"
  shows "utc_timestamp data ''date_gmt'' = Inr (d\<lparr>tzinfo := Some pytz_UTC\<rparr>)
    \<and> utc_timestamp data ''modified_gmt'' = Inr (m\<lparr>tzinfo := Some pytz_UTC\<rparr>)
    \<and> published post = d\<lparr>tzinfo := Some pytz_UTC\<rparr>
    \<and> modified post = m\<lparr>tzinfo := Some pytz_UTC\<rparr>
    \<and> isoformat (published post) = isoformat_naive d @ ''+00:00''
    \<and> isoformat (modified post) = isoformat_naive m @ ''+00:00''
    \<and> (\<exists>before after. front_matter post =
           before @ quoted ''date'' @ '': '' @ quoted (isoformat_naive d @ ''+00:00'')
           @ '', '' @ quoted ''lastmod'' @ '': '' @ quoted (isoformat_naive m @ ''+00:00'')
           @ after)"
proof -
  have 1: "utc_timestamp data ''date_gmt'' = Inr (d\<lparr>tzinfo := Some pytz_UTC\<rparr>)"
    using date by (rule utc_timestamp_naive)
  have 2: "utc_timestamp data ''modified_gmt'' = Inr (m\<lparr>tzinfo := Some pytz_UTC\<rparr>)"
    using lastmod by (rule utc_timestamp_naive)
  have p: "published post = d\<lparr>tzinfo := Some pytz_UTC\<rparr>"
    using enhance_post_timestamps(1) [OF run] 1 by simp
  have q: "modified post = m\<lparr>tzinfo := Some pytz_UTC\<rparr>"
    using enhance_post_timestamps(2) [OF run] 2 by simp
  have 3: "isoformat (published post) = isoformat_naive d @ ''+00:00''"
    by (simp add: p isoformat_utc isoformat_naive_tzinfo)
  have 4: "isoformat (modified post) = isoformat_naive m @ ''+00:00''"
    by (simp add: q isoformat_utc isoformat_naive_tzinfo)
  have "front_matter post =
     (''{'' @ quoted ''title'' @ '': '' @ encode_basestring_ascii (title post)
       @ '', '' @ quoted ''categories'' @ '': '' @ string_array (categories post)
       @ '', '' @ quoted ''tags'' @ '': '' @ string_array (tags post)
       @ '', '' @ quoted ''aliases'' @ '': '' @ string_array (aliases post)
       @ '', '' @ quoted ''author'' @ '': '' @ encode_basestring_ascii (author post) @ '', '')
     @ quoted ''date'' @ '': '' @ quoted (isoformat_naive d @ ''+00:00'')
     @ '', '' @ quoted ''lastmod'' @ '': '' @ quoted (isoformat_naive m @ ''+00:00'')
     @ ('', '' @ quoted ''slug'' @ '': '' @ encode_basestring_ascii (slug post)
       @ '', '' @ quoted ''summary'' @ '': '' @ encode_basestring_ascii (summary post)
       @ ''}'')"
    by (simp add: front_matter_text p q encode_utc)
  then have 5: "\<exists>before after. front_matter post =
           before @ quoted ''date'' @ '': '' @ quoted (isoformat_naive d @ ''+00:00'')
           @ '', '' @ quoted ''lastmod'' @ '': '' @ quoted (isoformat_naive m @ ''+00:00'')
           @ after"
    by blast
  show ?thesis using 1 2 p q 3 4 5 by blast
qed

theorem offset_free_timestamps_are_utc_witness:
  "fromisoformat ''2020-01-02T03:04:05'' = Inr (utc_2020_01_02\<lparr>tzinfo := None\<rparr>)
   \<and> published hello_post = utc_2020_01_02
   \<and> tzinfo (published hello_post) = Some pytz_UTC
   \<and> isoformat (published hello_post) = ''2020-01-02T03:04:05+00:00''
   \<and> isoformat (modified hello_post) = ''2020-02-03T04:05:06+00:00''"
proof -
  have d: "fromisoformat ''2020-01-02T03:04:05'' = Inr (utc_2020_01_02\<lparr>tzinfo := None\<rparr>)"
    by (simp add: parser_defs utc_2020_01_02_def)
  have m: "fromisoformat ''2020-02-03T04:05:06'' = Inr (utc_2020_02_03\<lparr>tzinfo := None\<rparr>)"
    by (simp add: parser_defs utc_2020_02_03_def)
  have fields: "subscript hello_raw ''date_gmt'' = Inr (JStr ''2020-01-02T03:04:05'')"
    "subscript hello_raw ''modified_gmt'' = Inr (JStr ''2020-02-03T04:05:06'')"
    by (simp_all add: hello_raw_def)
  have naive: "tzinfo (utc_2020_01_02\<lparr>tzinfo := None\<rparr>) = None"
    "tzinfo (utc_2020_02_03\<lparr>tzinfo := None\<rparr>) = None" by simp_all
  have memo: "categories_memo (fresh_world Map.empty) = None" by (simp add: fresh_world_def)
  note t = offset_free_timestamps_are_utc [OF fields(1) d naive(1) fields(2) m naive(2)
      hello_run [OF memo]]
  have n: "isoformat_naive (utc_2020_01_02\<lparr>tzinfo := None\<rparr>) = ''2020-01-02T03:04:05''"
    "isoformat_naive (utc_2020_02_03\<lparr>tzinfo := None\<rparr>) = ''2020-02-03T04:05:06''"
    by (simp_all add: utc_2020_01_02_def utc_2020_02_03_def isoformat_naive_def zero_pad_def
        decimal_small decimal_large digit_chars_def)
  from t have "published hello_post = utc_2020_01_02\<lparr>tzinfo := None\<rparr>\<lparr>tzinfo := Some pytz_UTC\<rparr>"
    by blast
  then have p: "tzinfo (published hello_post) = Some pytz_UTC" by simp
  have q: "published hello_post = utc_2020_01_02" by (simp add: hello_post_def)
  from t have "isoformat (published hello_post) =
      isoformat_naive (utc_2020_01_02\<lparr>tzinfo := None\<rparr>) @ ''+00:00''"
    by blast
  then have i: "isoformat (published hello_post) = ''2020-01-02T03:04:05+00:00''"
    by (simp only: n) simp
  from t have "isoformat (modified hello_post) =
      isoformat_naive (utc_2020_02_03\<lparr>tzinfo := None\<rparr>) @ ''+00:00''"
    by blast
  then have j: "isoformat (modified hello_post) = ''2020-02-03T04:05:06+00:00''"
    by (simp only: n) simp
  show ?thesis using d p q i j by blast
qed

subsection \<open>What the operations do to the memoized dictionaries\<close>

lemma settled_refl: "settled b w w"
  unfolding settled_def by (rule exI [of _ "[]"]) simp

lemma settled_trans:
  assumes "settled b w1 w2" and "settled b w2 w3"
  shows "settled b w1 w3"
proof -
  from assms(1) obtain n1 where 1: "requests w2 = requests w1 @ n1"
    "\<forall>d. categories_memo w1 = Some d \<longrightarrow> categories_memo w2 = Some d
        \<and> list_all (\<lambda>r. url r \<noteq> b @ ''/wp-json/wp/v2/categories'') n1"
    "\<forall>d. tags_memo w1 = Some d \<longrightarrow> tags_memo w2 = Some d
        \<and> list_all (\<lambda>r. url r \<noteq> b @ ''/wp-json/wp/v2/tags'') n1"
    unfolding settled_def by blast
  from assms(2) obtain n2 where 2: "requests w3 = requests w2 @ n2"
    "\<forall>d. categories_memo w2 = Some d \<longrightarrow> categories_memo w3 = Some d
        \<and> list_all (\<lambda>r. url r \<noteq> b @ ''/wp-json/wp/v2/categories'') n2"
    "\<forall>d. tags_memo w2 = Some d \<longrightarrow> tags_memo w3 = Some d
        \<and> list_all (\<lambda>r. url r \<noteq> b @ ''/wp-json/wp/v2/tags'') n2"
    unfolding settled_def by blast
  show ?thesis
    unfolding settled_def
  proof (intro exI [of _ "n1 @ n2"] conjI allI impI)
    show "requests w3 = requests w1 @ n1 @ n2" using 1(1) 2(1) by simp
  next
    fix d assume "categories_memo w1 = Some d"
    then show "categories_memo w3 = Some d"
      and "list_all (\<lambda>r. url r \<noteq> b @ ''/wp-json/wp/v2/categories'') (n1 @ n2)"
      using 1(2) 2(2) by auto
  next
    fix d assume "tags_memo w1 = Some d"
    then show "tags_memo w3 = Some d"
      and "list_all (\<lambda>r. url r \<noteq> b @ ''/wp-json/wp/v2/tags'') (n1 @ n2)"
      using 1(3) 2(3) by auto
  qed
qed

text \<open>A consumer that leaves the world alone: the fetcher only adds its page requests.\<close>

lemma pageWhileList_from_pure:
  assumes pure: "\<And>x a w out. consume x a w = Some out \<Longrightarrow> world_of out = w"
    and run: "pageWhileList_from net consume u base_params page acc w = Some out"
  shows "\<exists>ns. world_of out = w\<lparr>requests := requests w @ map (page_request u) ns\<rparr>"
proof -
  define R where "R = (\<lambda>(a :: world) (c :: world).
      \<exists>ns. c = a\<lparr>requests := requests a @ map (page_request u) ns\<rparr>)"
  have refl: "\<And>w. R w w"
  proof -
    fix w :: world
    have "w = w\<lparr>requests := requests w @ map (page_request u) []\<rparr>" by simp
    then show "R w w" unfolding R_def by blast
  qed
  have trans: "\<And>a b c. R a b \<Longrightarrow> R b c \<Longrightarrow> R a c"
  proof -
    fix a b c :: world
    assume "R a b" and "R b c"
    then obtain ns ms where "b = a\<lparr>requests := requests a @ map (page_request u) ns\<rparr>"
      "c = b\<lparr>requests := requests b @ map (page_request u) ms\<rparr>"
      unfolding R_def by blast
    then have "c = a\<lparr>requests := requests a @ map (page_request u) (ns @ ms)\<rparr>" by simp
    then show "R a c" unfolding R_def by blast
  qed
  have req: "\<And>w page. R w (log_request (page_request u page) w)"
  proof -
    fix w :: world and page :: int
    have "log_request (page_request u page) w =
        w\<lparr>requests := requests w @ map (page_request u) [page]\<rparr>"
      by (simp add: log_request_def)
    then show "R w (log_request (page_request u page) w)" unfolding R_def by blast
  qed
  have cons: "\<And>x a w out. consume x a w = Some out \<Longrightarrow> R w (world_of out)"
    using pure refl by simp
  have "R w (world_of out)" using refl trans req cons run by (rule pageWhileList_from_rel)
  then show ?thesis unfolding R_def .
qed

lemma index_by_id_pure: "index_by_id x a w = Some out \<Longrightarrow> world_of out = w"
  by (auto simp: index_by_id_def split: sum.splits)

lemma collect_pure: "collect x a w = Some out \<Longrightarrow> world_of out = w"
  by (auto simp: collect_def)

lemma url_page_request [simp]: "url (page_request u page) = u"
  by (simp add: page_request_def)

lemma settled_fetch:
  assumes "w' = w\<lparr>requests := requests w @ map (page_request u) ns\<rparr>"
    and "categories_memo w = None \<or> u \<noteq> b @ ''/wp-json/wp/v2/categories''"
    and "tags_memo w = None \<or> u \<noteq> b @ ''/wp-json/wp/v2/tags''"
  shows "settled b w w'" and "settled b w (w'\<lparr>posts_memo := pm\<rparr>)"
  unfolding settled_def
  using assms
  by (auto intro!: exI [of _ "map (page_request u) ns"] simp: list_all_iff)

lemma Extractor_categories_settled:
  assumes "Extractor_categories net b w = Some out"
  shows "settled b w (world_of out)"
proof (cases "categories_memo w")
  case (Some d)
  with assms have "world_of out = w" by (auto simp: Extractor_categories_def)
  then show ?thesis by (simp add: settled_refl)
next
  case None
  let ?u = "b @ ''/wp-json/wp/v2/categories''"
  from assms None obtain o1 where o1:
    "pageWhileList_from net index_by_id ?u default_base_params 1 [] w = Some o1"
    and out: "out = (case o1 of Raises e w' \<Rightarrow> Raises e w'
        | Returns d w' \<Rightarrow> Returns d (w'\<lparr>categories_memo := Some d\<rparr>))"
    by (auto simp: Extractor_categories_def pageWhileList_def split: option.splits outcome.splits)
  from pageWhileList_from_pure [of index_by_id, OF _ o1] index_by_id_pure
  obtain ns where ns: "world_of o1 = w\<lparr>requests := requests w @ map (page_request ?u) ns\<rparr>"
    by blast
  have "settled b w (world_of o1)"
    using ns None by (intro settled_fetch(1) [of _ w ?u ns]) simp_all
  moreover have "settled b (world_of o1) (world_of out)"
    unfolding settled_def using out ns None
    by (cases o1) (auto intro!: exI [of _ "[]"])
  ultimately show ?thesis by (rule settled_trans)
qed

lemma Extractor_tags_settled:
  assumes "Extractor_tags net b w = Some out"
  shows "settled b w (world_of out)"
proof (cases "tags_memo w")
  case (Some d)
  with assms have "world_of out = w" by (auto simp: Extractor_tags_def)
  then show ?thesis by (simp add: settled_refl)
next
  case None
  let ?u = "b @ ''/wp-json/wp/v2/tags''"
  from assms None obtain o1 where o1:
    "pageWhileList_from net index_by_id ?u default_base_params 1 [] w = Some o1"
    and out: "out = (case o1 of Raises e w' \<Rightarrow> Raises e w'
        | Returns d w' \<Rightarrow> Returns d (w'\<lparr>tags_memo := Some d\<rparr>))"
    by (auto simp: Extractor_tags_def pageWhileList_def split: option.splits outcome.splits)
  from pageWhileList_from_pure [of index_by_id, OF _ o1] index_by_id_pure
  obtain ns where ns: "world_of o1 = w\<lparr>requests := requests w @ map (page_request ?u) ns\<rparr>"
    by blast
  have "settled b w (world_of o1)"
    using ns None by (intro settled_fetch(1) [of _ w ?u ns]) simp_all
  moreover have "settled b (world_of o1) (world_of out)"
    unfolding settled_def using out ns None
    by (cases o1) (auto intro!: exI [of _ "[]"])
  ultimately show ?thesis by (rule settled_trans)
qed

lemma resolve_name_settled:
  assumes memo: "\<And>w out. memo w = Some out \<Longrightarrow> settled b w (world_of out)"
    and "resolve_name memo i acc w = Some out"
  shows "settled b w (world_of out)"
proof -
  from assms(2) obtain o1 where o1: "memo w = Some o1" and w: "world_of out = world_of o1"
    by (auto simp: resolve_name_def split: option.splits outcome.splits sum.splits json.splits)
  show ?thesis using memo [OF o1] w by simp
qed

lemma resolve_names_settled:
  assumes memo: "\<And>w out. memo w = Some out \<Longrightarrow> settled b w (world_of out)"
    and run: "resolve_names memo data k w = Some out"
  shows "settled b w (world_of out)"
proof (cases "\<exists>ids. subscript data k = Inr (JList ids) \<or> (\<exists>v. subscript data k = Inr v \<and> py_iter v = Inr ids)")
  case False
  with run have "world_of out = w"
    by (auto simp: resolve_names_def split: sum.splits)
  then show ?thesis by (simp add: settled_refl)
next
  case True
  then obtain ids where "for_each (resolve_name memo) ids [] w = Some out"
    using run by (auto simp: resolve_names_def split: sum.splits)
  then show ?thesis
    using for_each_rel [of "settled b" "resolve_name memo" ids "[]" w out]
      settled_refl settled_trans resolve_name_settled [OF memo]
    by blast
qed

lemma enhance_post_settled:
  assumes "enhance_post unescape net b data w = Some out"
  shows "settled b w (world_of out)"
proof (cases "resolve_names (Extractor_categories net b) data ''categories'' w")
  case None
  with assms have "world_of out = w"
    by (auto simp: enhance_post_def split: sum.splits)
  then show ?thesis by (simp add: settled_refl)
next
  case (Some o1)
  have 1: "settled b w (world_of o1)"
    using Extractor_categories_settled Some by (rule resolve_names_settled)
  show ?thesis
  proof (cases "\<exists>e. utc_timestamp data ''date_gmt'' = Inl e \<or> utc_timestamp data ''modified_gmt'' = Inl e
      \<or> rendered unescape data ''title'' = Inl e \<or> slug_of data = Inl e")
    case True
    with assms have "world_of out = w"
      by (auto simp: enhance_post_def split: sum.splits)
    then show ?thesis by (simp add: settled_refl)
  next
    case False
    show ?thesis
    proof (cases o1)
      case (Raises e w1)
      with assms Some False have "world_of out = w1"
        by (auto simp: enhance_post_def split: sum.splits)
      with 1 Raises show ?thesis by simp
    next
      case (Returns cats w1)
      show ?thesis
      proof (cases "resolve_names (Extractor_tags net b) data ''tags'' w1")
        case None
        with assms Some False Returns show ?thesis
          by (auto simp: enhance_post_def split: sum.splits)
      next
        case o2: (Some o2)
        have 2: "settled b w1 (world_of o2)"
          using Extractor_tags_settled o2 by (rule resolve_names_settled)
        from assms Some False Returns o2 have "world_of out = world_of o2"
          by (auto simp: enhance_post_def split: sum.splits outcome.splits)
        with 1 2 Returns show ?thesis using settled_trans by auto
      qed
    qed
  qed
qed

lemma add_post_settled: "settled b w (world_of (add_post base_path post w))"
  unfolding settled_def
  by (rule exI [of _ "[]"])
     (auto simp: add_post_def posts_directory_def Let_def
        split: option.splits sum.splits outcome.splits)

lemma get_posts_settled:
  assumes cons: "\<And>p a w out. consume p a w = Some out \<Longrightarrow> settled b w (world_of out)"
    and run: "get_posts unescape net b consume acc w = Some out"
  shows "settled b w (world_of out)"
proof -
  let ?u = "b @ ''/wp-json/wp/v2/posts''"
  have req: "\<And>w page. settled b w (log_request (page_request ?u page) w)"
  proof -
    fix w :: world and page :: int
    have "log_request (page_request ?u page) w =
        w\<lparr>requests := requests w @ map (page_request ?u) [page]\<rparr>"
      by (simp add: log_request_def)
    then show "settled b w (log_request (page_request ?u page) w)"
      by (intro settled_fetch(1) [of _ w ?u "[page]"]) simp_all
  qed
  have step: "\<And>x a w out. enhance_then unescape net b consume x a w = Some out
      \<Longrightarrow> settled b w (world_of out)"
  proof -
    fix x a w out
    assume e: "enhance_then unescape net b consume x a w = Some out"
    then obtain o1 where o1: "enhance_post unescape net b x w = Some o1"
      by (auto simp: enhance_then_def split: option.splits)
    have 1: "settled b w (world_of o1)" using o1 by (rule enhance_post_settled)
    show "settled b w (world_of out)"
    proof (cases o1)
      case (Raises e' w1)
      with e o1 have "out = Raises e' w1" by (simp add: enhance_then_def)
      with 1 Raises show ?thesis by simp
    next
      case (Returns p w1)
      with e o1 have "consume p a w1 = Some out" by (simp add: enhance_then_def)
      then have "settled b w1 (world_of out)" by (rule cons)
      with 1 Returns show ?thesis using settled_trans by auto
    qed
  qed
  show ?thesis
    using settled_refl settled_trans req step run [unfolded get_posts_def pageWhileList_def]
    by (rule pageWhileList_from_rel [where R = "settled b"])
qed

lemma main_settled:
  assumes "main unescape net b target_dir w = Some out"
  shows "settled b w (world_of out)"
proof -
  have "\<And>p a w out. write_post target_dir p a w = Some out \<Longrightarrow> settled b w (world_of out)"
    using add_post_settled by (auto simp: write_post_def)
  then show ?thesis using assms [unfolded main_def] by (rule get_posts_settled)
qed

lemma posts_settled:
  assumes "posts unescape net b w = Some out"
  shows "settled b w (world_of out)"
proof (cases "posts_memo w")
  case (Some ps)
  with assms have "world_of out = w" by (auto simp: posts_def)
  then show ?thesis by (simp add: settled_refl)
next
  case None
  from assms None obtain o1 where o1: "get_posts unescape net b collect [] w = Some o1"
    and out: "out = (case o1 of Raises e w' \<Rightarrow> Raises e w'
        | Returns ps w' \<Rightarrow> Returns ps (w'\<lparr>posts_memo := Some ps\<rparr>))"
    by (auto simp: posts_def split: option.splits outcome.splits)
  have "\<And>p a w out. collect p a w = Some out \<Longrightarrow> settled b w (world_of out)"
    using collect_pure settled_refl by metis
  then have "settled b w (world_of o1)" using o1 by (rule get_posts_settled)
  moreover have "settled b (world_of o1) (world_of out)"
    unfolding settled_def using out
    by (cases o1) (auto intro!: exI [of _ "[]"])
  ultimately show ?thesis by (rule settled_trans)
qed

subsection \<open>C8: the reference dictionaries are written once\<close>

text \<open>
  C8. For the categories and for the tags alike: an access that finds the dictionary
  memoized returns it, sends no request and leaves the world as it is; an access that
  finds none runs the paginated fetch of the endpoint, and when the fetch returns, its
  dictionary is stored and returned; and every operation of the program (the two
  accesses, \<^verbatim>\<open>enhance_post\<close>, \<^verbatim>\<open>posts\<close>, \<^verbatim>\<open>add_post\<close>, the driving loop) that starts with
  a memoized dictionary ends with the same dictionary memoized and has sent no request
  to the endpoint of that dictionary (\<open>settled\<close>), while \<^verbatim>\<open>get\<close> never touches either
  dictionary. So a dictionary is populated by one fetch at most and read-only after.
\<close>

theorem reference_caches_written_once:
  "(categories_memo w = Some d \<longrightarrow> Extractor_categories net b w = Some (Returns d w))
   \<and> (tags_memo w = Some d \<longrightarrow> Extractor_tags net b w = Some (Returns d w))
   \<and> (categories_memo w = None \<longrightarrow>
        Extractor_categories net b w =
          (case pageWhileList net index_by_id (b @ ''/wp-json/wp/v2/categories'')
                  default_base_params [] w of
             None \<Rightarrow> None
           | Some (Raises e w') \<Rightarrow> Some (Raises e w')
           | Some (Returns d' w') \<Rightarrow> Some (Returns d' (w'\<lparr>categories_memo := Some d'\<rparr>))))
   \<and> (tags_memo w = None \<longrightarrow>
        Extractor_tags net b w =
          (case pageWhileList net index_by_id (b @ ''/wp-json/wp/v2/tags'')
                  default_base_params [] w of
             None \<Rightarrow> None
           | Some (Raises e w') \<Rightarrow> Some (Raises e w')
           | Some (Returns d' w') \<Rightarrow> Some (Returns d' (w'\<lparr>tags_memo := Some d'\<rparr>))))
   \<and> (\<forall>out. Extractor_categories net b w = Some out \<longrightarrow> settled b w (world_of out))
   \<and> (\<forall>out. Extractor_tags net b w = Some out \<longrightarrow> settled b w (world_of out))
   \<and> (\<forall>out. enhance_post unescape net b data w = Some out \<longrightarrow> settled b w (world_of out))
   \<and> (\<forall>out. posts unescape net b w = Some out \<longrightarrow> settled b w (world_of out))
   \<and> (\<forall>out. main unescape net b target_dir w = Some out \<longrightarrow> settled b w (world_of out))
   \<and> settled b w (world_of (add_post target_dir post w))
   \<and> categories_memo (world_of (get net u ps hs w)) = categories_memo w
   \<and> tags_memo (world_of (get net u ps hs w)) = tags_memo w"
proof -
  have 1: "categories_memo w = Some d \<longrightarrow> Extractor_categories net b w = Some (Returns d w)"
    by (simp add: Extractor_categories_def)
  have 2: "tags_memo w = Some d \<longrightarrow> Extractor_tags net b w = Some (Returns d w)"
    by (simp add: Extractor_tags_def)
  have 3: "categories_memo w = None \<longrightarrow>
        Extractor_categories net b w =
          (case pageWhileList net index_by_id (b @ ''/wp-json/wp/v2/categories'')
                  default_base_params [] w of
             None \<Rightarrow> None
           | Some (Raises e w') \<Rightarrow> Some (Raises e w')
           | Some (Returns d' w') \<Rightarrow> Some (Returns d' (w'\<lparr>categories_memo := Some d'\<rparr>)))"
    by (simp add: Extractor_categories_def)
  have 4: "tags_memo w = None \<longrightarrow>
        Extractor_tags net b w =
          (case pageWhileList net index_by_id (b @ ''/wp-json/wp/v2/tags'')
                  default_base_params [] w of
             None \<Rightarrow> None
           | Some (Raises e w') \<Rightarrow> Some (Raises e w')
           | Some (Returns d' w') \<Rightarrow> Some (Returns d' (w'\<lparr>tags_memo := Some d'\<rparr>)))"
    by (simp add: Extractor_tags_def)
  have 5: "categories_memo (world_of (get net u ps hs w)) = categories_memo w"
    "tags_memo (world_of (get net u ps hs w)) = tags_memo w"
    by (simp_all add: get_def Let_def split: sum.splits)
  have 6: "\<forall>out. Extractor_categories net b w = Some out \<longrightarrow> settled b w (world_of out)"
    using Extractor_categories_settled by blast
  have 7: "\<forall>out. Extractor_tags net b w = Some out \<longrightarrow> settled b w (world_of out)"
    using Extractor_tags_settled by blast
  have 8: "\<forall>out. enhance_post unescape net b data w = Some out \<longrightarrow> settled b w (world_of out)"
    using enhance_post_settled by blast
  have 9: "\<forall>out. posts unescape net b w = Some out \<longrightarrow> settled b w (world_of out)"
    using posts_settled by blast
  have 10: "\<forall>out. main unescape net b target_dir w = Some out \<longrightarrow> settled b w (world_of out)"
    using main_settled by blast
  have 11: "settled b w (world_of (add_post target_dir post w))"
    by (rule add_post_settled)
  show ?thesis
    by (intro conjI 1 2 3 4 5 6 7 8 9 10 11)
qed

theorem reference_caches_written_once_witness:
  "categories_memo cached_world = Some sample_categories
   \<and> Extractor_categories blog_net blog_url cached_world = Some (Returns sample_categories cached_world)
   \<and> settled blog_url cached_world (world_of (add_post [''out''] hello_post cached_world))"
  using reference_caches_written_once [of cached_world sample_categories blog_net blog_url
      amp_unescape hello_raw "[''out'']" hello_post "''u''" "[]" "[]"]
  by (simp add: cached_world_def)

subsection \<open>Paths and directories\<close>

lemma split_on_no_sep: "c \<notin> set s \<Longrightarrow> split_on c s = [s]"
  by (induction s) auto

lemma truediv_plain: "plain_name s \<Longrightarrow> truediv p s = p @ [s]"
proof -
  assume a: "plain_name s"
  then obtain c cs where s: "s = c # cs" by (cases s) (auto simp: plain_name_def)
  from a have "split_on (CHR ''/'') s = [s]"
    by (intro split_on_no_sep) (simp add: plain_name_def)
  moreover from a s have "c \<noteq> CHR ''/''" by (auto simp: plain_name_def)
  ultimately show ?thesis using a s
    by (simp add: truediv_def segment_parts_def plain_name_def)
qed

lemma truediv_literals [simp]:
  "truediv p ''content'' = p @ [''content'']"
  "truediv p ''posts'' = p @ [''posts'']"
  "truediv p ''index.md'' = p @ [''index.md'']"
  by (simp_all add: truediv_def segment_parts_def)

lemma is_root_snoc [simp]: "is_root (p @ [''index.md'']) = False"
  by (cases p) (auto simp: is_root_def)

lemma parent_snoc_index [simp]: "parent (p @ [''index.md'']) = p"
  by (simp add: parent_def)

lemma has_nul_snoc_index [simp]: "has_nul (p @ [''index.md'']) = has_nul p"
  by (auto simp: has_nul_def)

lemma parent_neq_snoc: "parent p \<noteq> p @ [x]"
proof
  assume "parent p = p @ [x]"
  then have "length (parent p) = Suc (length p)" by simp
  moreover have "length (parent p) \<le> length p" by (simp add: parent_def)
  ultimately show False by simp
qed

lemma grown_refl: "grown p fs fs"
  by (simp add: grown_def)

lemma take_parent: "\<exists>j. take k (parent p) = take j p"
proof (cases "is_root p")
  case True
  then show ?thesis by (auto simp: parent_def)
next
  case False
  then have "take k (parent p) = take (min k (length p - 1)) p"
    by (simp add: parent_def butlast_conv_take min.commute)
  then show ?thesis by blast
qed

lemma grown_parent: "grown (parent p) a b \<Longrightarrow> grown p a b"
  unfolding grown_def using take_parent by metis

lemma grown_trans: "grown p a b \<Longrightarrow> grown p b c \<Longrightarrow> grown p a c"
  unfolding grown_def by (metis option.distinct(1))

lemma os_mkdir_Inr:
  assumes "os_mkdir fs p = Inr fs'"
  shows "fs' = fs(p \<mapsto> Dir)" and "\<not> has_nul p" and "node_at fs p = None"
    and "is_dir fs (parent p)"
  using assms
  by (auto simp: os_mkdir_def is_dir_def split: if_splits option.splits node.splits)

lemma node_at_None: "node_at fs p = None \<Longrightarrow> fs p = None \<and> \<not> is_root p"
  by (auto simp: node_at_def split: if_splits)

lemma os_mkdir_grown: "os_mkdir fs p = Inr fs' \<Longrightarrow> grown p fs fs' \<and> is_dir fs' p"
proof -
  assume a: "os_mkdir fs p = Inr fs'"
  note r = os_mkdir_Inr [OF a]
  from r(3) have "fs p = None" by (simp add: node_at_None)
  moreover have "\<exists>k. p = take k p" by (rule exI [of _ "length p"]) simp
  ultimately show ?thesis using r(1) by (auto simp: grown_def is_dir_def node_at_def)
qed

lemma os_mkdir_Inl_nul: "os_mkdir fs p = Inl e \<Longrightarrow> e \<noteq> ValueError \<Longrightarrow> \<not> has_nul p"
  by (cases "has_nul p") (simp_all add: os_mkdir_def)

lemma mkdir_exist_ok_Inr:
  assumes "mkdir_exist_ok fs p = Inr fs'"
  shows "grown p fs fs' \<and> is_dir fs' p \<and> \<not> has_nul p"
proof (cases "os_mkdir fs p")
  case (Inr fs0)
  with assms have "fs' = fs0" by (simp add: mkdir_exist_ok_def)
  then show ?thesis using os_mkdir_grown [OF Inr] os_mkdir_Inr(2) [OF Inr] by simp
next
  case (Inl e)
  with assms have e: "e \<noteq> FileNotFoundError" "e \<noteq> ValueError" "is_dir fs p" "fs' = fs"
    by (simp_all add: mkdir_exist_ok_def split: if_splits)
  then show ?thesis using os_mkdir_Inl_nul [OF Inl] by (simp add: grown_refl)
qed

lemma mkdir_parents_Inr:
  "mkdir_parents fs p = Inr fs' \<Longrightarrow> grown p fs fs' \<and> is_dir fs' p \<and> \<not> has_nul p"
proof (induction fs p arbitrary: fs' rule: mkdir_parents.induct)
  case (1 fs p)
  show ?case
  proof (cases "os_mkdir fs p")
    case (Inr fs0)
    with "1.prems" have "fs' = fs0" by (simp add: mkdir_parents.simps [of fs p])
    then show ?thesis using os_mkdir_grown [OF Inr] os_mkdir_Inr(2) [OF Inr] by simp
  next
    case (Inl e)
    show ?thesis
    proof (cases "e = FileNotFoundError")
      case True
      with Inl "1.prems" have np: "parent p \<noteq> p"
        by (auto simp: mkdir_parents.simps [of fs p] split: if_splits)
      with Inl True "1.prems" obtain fs1 where fs1: "mkdir_parents fs (parent p) = Inr fs1"
        and ok: "mkdir_exist_ok fs1 p = Inr fs'"
        by (auto simp: mkdir_parents.simps [of fs p] split: sum.splits)
      have "grown (parent p) fs fs1" using "1.IH" [OF Inl True np fs1] by simp
      then have "grown p fs fs1" by (rule grown_parent)
      then show ?thesis using mkdir_exist_ok_Inr [OF ok] grown_trans by blast
    next
      case False
      with Inl "1.prems" have "fs' = fs" "is_dir fs p" "e \<noteq> ValueError"
        by (auto simp: mkdir_parents.simps [of fs p] split: if_splits)
      moreover from Inl this(3) have "\<not> has_nul p"
        by (rule os_mkdir_Inl_nul)
      ultimately show ?thesis by (simp add: grown_refl)
    qed
  qed
qed

lemma mkdir_parents_present:
  assumes "is_dir fs p" and "is_dir fs (parent p)" and "\<not> has_nul p"
  shows "mkdir_parents fs p = Inr fs"
proof -
  have "os_mkdir fs p = Inl FileExistsError"
    using assms by (auto simp: os_mkdir_def is_dir_def)
  then show ?thesis using assms(1) by (simp add: mkdir_parents.simps [of fs p])
qed

lemma tree_fun_upd:
  assumes "tree fs" and "is_dir fs (parent p)" and "fs p = None \<or> (\<exists>t. fs p = Some (File t))"
  shows "tree (fs(p \<mapsto> n))"
  unfolding tree_def
proof (intro allI impI)
  fix q m
  assume q: "(fs(p \<mapsto> n)) q = Some m"
  have old: "is_dir fs (parent q)"
  proof (cases "q = p")
    case True
    then show ?thesis using assms(2) by simp
  next
    case False
    with q have "fs q = Some m" by simp
    then show ?thesis using assms(1) by (auto simp: tree_def)
  qed
  have "parent q \<noteq> p \<or> is_root (parent q)"
  proof (rule ccontr)
    assume "\<not> (parent q \<noteq> p \<or> is_root (parent q))"
    then have "parent q = p" "\<not> is_root p" by auto
    with old have "fs p = Some Dir" by (simp add: is_dir_def node_at_def)
    with assms(3) show False by auto
  qed
  with old show "is_dir (fs(p \<mapsto> n)) (parent q)"
    by (auto simp: is_dir_def node_at_def)
qed

lemma os_mkdir_tree:
  assumes "tree fs" and "os_mkdir fs p = Inr fs'"
  shows "tree fs'"
proof -
  note r = os_mkdir_Inr [OF assms(2)]
  from r(3) have "fs p = None" by (simp add: node_at_None)
  then have "tree (fs(p \<mapsto> Dir))" using assms(1) r(4) by (intro tree_fun_upd) simp_all
  then show ?thesis using r(1) by simp
qed

lemma mkdir_exist_ok_tree:
  assumes "tree fs" and "mkdir_exist_ok fs p = Inr fs'"
  shows "tree fs'"
proof (cases "os_mkdir fs p")
  case (Inr fs0)
  with assms(2) have "fs' = fs0" by (simp add: mkdir_exist_ok_def)
  then show ?thesis using os_mkdir_tree [OF assms(1) Inr] by simp
next
  case (Inl e)
  with assms(2) have "fs' = fs" by (simp add: mkdir_exist_ok_def split: if_splits)
  then show ?thesis using assms(1) by simp
qed

lemma mkdir_parents_tree:
  "tree fs \<Longrightarrow> mkdir_parents fs p = Inr fs' \<Longrightarrow> tree fs'"
proof (induction fs p arbitrary: fs' rule: mkdir_parents.induct)
  case (1 fs p)
  show ?case
  proof (cases "os_mkdir fs p")
    case (Inr fs0)
    with "1.prems" show ?thesis using os_mkdir_tree [of fs p fs0]
      by (simp add: mkdir_parents.simps [of fs p])
  next
    case (Inl e)
    show ?thesis
    proof (cases "e = FileNotFoundError")
      case True
      with Inl "1.prems" have np: "parent p \<noteq> p"
        by (auto simp: mkdir_parents.simps [of fs p] split: if_splits)
      with Inl True "1.prems" obtain fs1 where fs1: "mkdir_parents fs (parent p) = Inr fs1"
        and ok: "mkdir_exist_ok fs1 p = Inr fs'"
        by (auto simp: mkdir_parents.simps [of fs p] split: sum.splits)
      have "tree fs1" using "1.IH" [OF Inl True np "1.prems"(1) fs1] .
      then show ?thesis using ok by (rule mkdir_exist_ok_tree)
    next
      case False
      with Inl "1.prems" show ?thesis
        by (auto simp: mkdir_parents.simps [of fs p] split: if_splits)
    qed
  qed
qed

lemma tree_parent_dir: "tree fs \<Longrightarrow> is_dir fs p \<Longrightarrow> is_dir fs (parent p)"
  by (auto simp: tree_def is_dir_def node_at_def parent_def split: if_splits)

lemma write_text_Inr:
  assumes "write_text fs p t = Inr fs'"
  shows "fs' = fs(p \<mapsto> File t)" and "\<not> has_nul p" and "is_dir fs (parent p)"
    and "node_at fs p \<noteq> Some Dir"
  using assms
  by (auto simp: write_text_def is_dir_def split: if_splits option.splits node.splits)

lemma write_text_ok:
  assumes "\<not> has_nul p" and "is_dir fs (parent p)" and "node_at fs p \<noteq> Some Dir"
  shows "write_text fs p t = Inr (fs(p \<mapsto> File t))"
  using assms
  by (auto simp: write_text_def is_dir_def split: option.splits node.splits)

lemma write_text_tree:
  assumes "tree fs" and "write_text fs p t = Inr fs'"
  shows "tree fs'"
proof -
  note r = write_text_Inr [OF assms(2)]
  have "fs p = None \<or> (\<exists>t. fs p = Some (File t))"
  proof (cases "fs p")
    case None
    then show ?thesis by simp
  next
    case (Some n)
    show ?thesis
    proof (cases n)
      case Dir
      with Some r(4) have "is_root p" by (auto simp: node_at_def split: if_splits)
      with r(4) show ?thesis by (simp add: node_at_def)
    next
      case (File t)
      with Some show ?thesis by simp
    qed
  qed
  then show ?thesis using r(1) r(3) assms(1) tree_fun_upd [of fs p "File t"] by simp
qed

lemma kept_refl: "kept fs fs"
  by (simp add: kept_def)

lemma kept_trans: "kept a b \<Longrightarrow> kept b c \<Longrightarrow> kept a c"
  unfolding kept_def by blast

lemma grown_kept: "grown p fs fs' \<Longrightarrow> kept fs fs'"
  unfolding grown_def kept_def by (metis option.distinct(1))

lemma write_text_kept: "write_text fs p t = Inr fs' \<Longrightarrow> kept fs fs'"
proof -
  assume a: "write_text fs p t = Inr fs'"
  note r = write_text_Inr [OF a]
  have "fs p \<noteq> Some Dir"
  proof
    assume "fs p = Some Dir"
    with r(4) have "is_root p" by (auto simp: node_at_def split: if_splits)
    with r(4) show False by (simp add: node_at_def)
  qed
  then show ?thesis using r(1) by (auto simp: kept_def)
qed

subsection \<open>When \<^verbatim>\<open>mkdir\<close> succeeds\<close>

lemma no_file_on_parent: "no_file_on fs p \<Longrightarrow> no_file_on fs (parent p)"
  unfolding no_file_on_def using take_parent by metis

lemma has_nul_parent: "\<not> has_nul p \<Longrightarrow> \<not> has_nul (parent p)"
  by (auto simp: has_nul_def parent_def dest: in_set_butlastD)

lemma no_file_on_self: "no_file_on fs p \<Longrightarrow> node_at fs p = Some n \<Longrightarrow> n = Dir"
proof -
  assume a: "no_file_on fs p" and b: "node_at fs p = Some n"
  from a have "\<forall>t. node_at fs (take (length p) p) \<noteq> Some (File t)"
    unfolding no_file_on_def by blast
  with b show "n = Dir" by (cases n) simp_all
qed

lemma grown_no_file_on:
  assumes "grown q fs fs'" and "no_file_on fs p"
  shows "no_file_on fs' p"
  unfolding no_file_on_def
proof (intro allI)
  fix k t
  have "node_at fs (take k p) \<noteq> Some (File t)" using assms(2) by (simp add: no_file_on_def)
  moreover have "fs' (take k p) = fs (take k p) \<or> fs' (take k p) = Some Dir"
    using assms(1) by (auto simp: grown_def)
  ultimately show "node_at fs' (take k p) \<noteq> Some (File t)"
    by (auto simp: node_at_def split: if_splits)
qed

lemma mkdir_exist_ok_ok:
  assumes "\<not> has_nul p" and "is_dir fs (parent p)" and "no_file_on fs p"
  shows "\<exists>fs'. mkdir_exist_ok fs p = Inr fs'"
proof (cases "node_at fs p")
  case None
  then have "os_mkdir fs p = Inr (fs(p \<mapsto> Dir))"
    using assms(1,2) by (simp add: os_mkdir_def is_dir_def)
  then show ?thesis by (simp add: mkdir_exist_ok_def)
next
  case (Some n)
  then have "n = Dir" using assms(3) by (rule no_file_on_self [rotated])
  with Some have "os_mkdir fs p = Inl FileExistsError" "is_dir fs p"
    using assms(1,2) by (simp_all add: os_mkdir_def is_dir_def)
  then show ?thesis by (simp add: mkdir_exist_ok_def)
qed

lemma mkdir_parents_ok:
  "\<not> has_nul p \<Longrightarrow> no_file_on fs p \<Longrightarrow> \<exists>fs'. mkdir_parents fs p = Inr fs'"
proof (induction fs p rule: mkdir_parents.induct)
  case (1 fs p)
  note nul = "1.prems"(1) and nof = "1.prems"(2)
  show ?case
  proof (cases "node_at fs (parent p)")
    case None
    then have e: "os_mkdir fs p = Inl FileNotFoundError"
      using nul by (simp add: os_mkdir_def)
    have np: "parent p \<noteq> p"
    proof
      assume same: "parent p = p"
      have "is_root p"
      proof (rule ccontr)
        assume "\<not> is_root p"
        with same have "butlast p = p" by (simp add: parent_def)
        then have "length p - 1 = length p" by (metis length_butlast)
        then have "p = []" by (cases p) simp_all
        with \<open>\<not> is_root p\<close> show False by (simp add: is_root_def)
      qed
      with None same show False by (simp add: node_at_def)
    qed
    obtain fs1 where fs1: "mkdir_parents fs (parent p) = Inr fs1"
      using "1.IH" [OF e refl np has_nul_parent [OF nul] no_file_on_parent [OF nof]] by blast
    note g = mkdir_parents_Inr [OF fs1]
    have "no_file_on fs1 p" using g nof grown_no_file_on by blast
    then obtain fs' where "mkdir_exist_ok fs1 p = Inr fs'"
      using mkdir_exist_ok_ok [OF nul, of fs1] g by blast
    then show ?thesis using e np fs1 by (simp add: mkdir_parents.simps [of fs p])
  next
    case (Some n)
    have "n = Dir" using no_file_on_parent [OF nof] Some by (rule no_file_on_self)
    with Some have d: "is_dir fs (parent p)" by (simp add: is_dir_def)
    show ?thesis
    proof (cases "node_at fs p")
      case None
      then have "os_mkdir fs p = Inr (fs(p \<mapsto> Dir))"
        using nul d by (simp add: os_mkdir_def is_dir_def)
      then show ?thesis by (simp add: mkdir_parents.simps [of fs p])
    next
      case (Some m)
      then have "m = Dir" using nof by (rule no_file_on_self [rotated])
      with Some have "is_dir fs p" by (simp add: is_dir_def)
      then have "mkdir_parents fs p = Inr fs" using d nul by (rule mkdir_parents_present)
      then show ?thesis by blast
    qed
  qed
qed

lemma tree_prefixes: "tree fs \<Longrightarrow> is_dir fs p \<Longrightarrow> is_dir fs (take k p)"
proof (induction p arbitrary: k rule: rev_induct)
  case Nil
  then show ?case by simp
next
  case (snoc x xs)
  have "is_dir fs (parent (xs @ [x]))" using snoc.prems by (rule tree_parent_dir)
  then have xs: "is_dir fs xs"
    by (auto simp: parent_def is_root_def is_dir_def node_at_def split: if_splits)
  show ?case
  proof (cases "k \<le> length xs")
    case True
    then show ?thesis using snoc.IH [OF snoc.prems(1) xs, of k] by simp
  next
    case False
    then show ?thesis using snoc.prems(2) by simp
  qed
qed

subsection \<open>The normalizer leaves the filesystem alone\<close>

lemma extractor_only_refl: "extractor_only w w"
proof -
  have "w = w\<lparr>requests := requests w, categories_memo := categories_memo w,
      tags_memo := tags_memo w\<rparr>" by simp
  then show ?thesis unfolding extractor_only_def by blast
qed

lemma extractor_only_trans:
  assumes "extractor_only a b" and "extractor_only b c"
  shows "extractor_only a c"
proof -
  from assms obtain rs c1 t1 rs' c2 t2 where
    "b = a\<lparr>requests := rs, categories_memo := c1, tags_memo := t1\<rparr>"
    "c = b\<lparr>requests := rs', categories_memo := c2, tags_memo := t2\<rparr>"
    unfolding extractor_only_def by blast
  then have "c = a\<lparr>requests := rs', categories_memo := c2, tags_memo := t2\<rparr>" by simp
  then show ?thesis unfolding extractor_only_def by blast
qed

lemma extractor_only_files:
  "extractor_only w w' \<Longrightarrow> files w' = files w \<and> posts_directory_memo w' = posts_directory_memo w"
  unfolding extractor_only_def by auto

lemma extractor_only_requests: "extractor_only w (w\<lparr>requests := rs\<rparr>)"
proof -
  have "w\<lparr>requests := rs\<rparr> = w\<lparr>requests := rs, categories_memo := categories_memo w,
      tags_memo := tags_memo w\<rparr>" by simp
  then show ?thesis unfolding extractor_only_def by blast
qed

lemma extractor_only_categories: "extractor_only w (w\<lparr>categories_memo := c\<rparr>)"
proof -
  have "w\<lparr>categories_memo := c\<rparr> = w\<lparr>requests := requests w, categories_memo := c,
      tags_memo := tags_memo w\<rparr>" by simp
  then show ?thesis unfolding extractor_only_def by blast
qed

lemma extractor_only_tags: "extractor_only w (w\<lparr>tags_memo := t\<rparr>)"
proof -
  have "w\<lparr>tags_memo := t\<rparr> = w\<lparr>requests := requests w, categories_memo := categories_memo w,
      tags_memo := t\<rparr>" by simp
  then show ?thesis unfolding extractor_only_def by blast
qed

lemma fetch_extractor_only:
  assumes "pageWhileList net index_by_id u base_params acc w = Some out"
  shows "extractor_only w (world_of out)"
proof -
  from pageWhileList_from_pure [of index_by_id, OF _ assms [unfolded pageWhileList_def]]
    index_by_id_pure
  obtain ns where "world_of out = w\<lparr>requests := requests w @ map (page_request u) ns\<rparr>"
    by blast
  then show ?thesis by (simp add: extractor_only_requests)
qed

lemma Extractor_categories_extractor_only:
  assumes "Extractor_categories net b w = Some out"
  shows "extractor_only w (world_of out)"
proof (cases "categories_memo w")
  case (Some d)
  with assms have "world_of out = w" by (auto simp: Extractor_categories_def)
  then show ?thesis by (simp add: extractor_only_refl)
next
  case None
  from assms None obtain o1 where o1:
    "pageWhileList net index_by_id (b @ ''/wp-json/wp/v2/categories'') default_base_params [] w
       = Some o1"
    and out: "out = (case o1 of Raises e w' \<Rightarrow> Raises e w'
        | Returns d w' \<Rightarrow> Returns d (w'\<lparr>categories_memo := Some d\<rparr>))"
    by (auto simp: Extractor_categories_def split: option.splits outcome.splits)
  have "extractor_only w (world_of o1)" using o1 by (rule fetch_extractor_only)
  moreover have "extractor_only (world_of o1) (world_of out)"
    using out by (cases o1) (simp_all add: extractor_only_refl extractor_only_categories)
  ultimately show ?thesis by (rule extractor_only_trans)
qed

lemma Extractor_tags_extractor_only:
  assumes "Extractor_tags net b w = Some out"
  shows "extractor_only w (world_of out)"
proof (cases "tags_memo w")
  case (Some d)
  with assms have "world_of out = w" by (auto simp: Extractor_tags_def)
  then show ?thesis by (simp add: extractor_only_refl)
next
  case None
  from assms None obtain o1 where o1:
    "pageWhileList net index_by_id (b @ ''/wp-json/wp/v2/tags'') default_base_params [] w
       = Some o1"
    and out: "out = (case o1 of Raises e w' \<Rightarrow> Raises e w'
        | Returns d w' \<Rightarrow> Returns d (w'\<lparr>tags_memo := Some d\<rparr>))"
    by (auto simp: Extractor_tags_def split: option.splits outcome.splits)
  have "extractor_only w (world_of o1)" using o1 by (rule fetch_extractor_only)
  moreover have "extractor_only (world_of o1) (world_of out)"
    using out by (cases o1) (simp_all add: extractor_only_refl extractor_only_tags)
  ultimately show ?thesis by (rule extractor_only_trans)
qed

text \<open>
  The steps of \<^verbatim>\<open>enhance_post\<close> respect every reflexive and transitive relation that
  the two memoized properties respect.
\<close>

lemma resolve_name_rel:
  assumes memo: "\<And>w out. memo w = Some out \<Longrightarrow> R w (world_of out)"
    and "resolve_name memo i acc w = Some out"
  shows "R w (world_of out)"
proof -
  from assms(2) obtain o1 where o1: "memo w = Some o1" and w: "world_of out = world_of o1"
    by (auto simp: resolve_name_def split: option.splits outcome.splits sum.splits json.splits)
  show ?thesis using memo [OF o1] w by simp
qed

lemma resolve_names_rel:
  assumes refl: "\<And>w. R w w"
    and trans: "\<And>a b c. R a b \<Longrightarrow> R b c \<Longrightarrow> R a c"
    and memo: "\<And>w out. memo w = Some out \<Longrightarrow> R w (world_of out)"
    and run: "resolve_names memo data k w = Some out"
  shows "R w (world_of out)"
proof (cases "\<exists>v ids. subscript data k = Inr v \<and> py_iter v = Inr ids")
  case False
  with run have "world_of out = w"
    by (auto simp: resolve_names_def split: sum.splits)
  then show ?thesis by (simp add: refl)
next
  case True
  then obtain ids where "for_each (resolve_name memo) ids [] w = Some out"
    using run by (auto simp: resolve_names_def split: sum.splits)
  then show ?thesis
    using for_each_rel [of R "resolve_name memo" ids "[]" w out]
      refl trans resolve_name_rel [of memo R, OF memo]
    by blast
qed

lemma enhance_post_rel:
  assumes refl: "\<And>w. R w w"
    and trans: "\<And>a b c. R a b \<Longrightarrow> R b c \<Longrightarrow> R a c"
    and cats: "\<And>w out. Extractor_categories net b w = Some out \<Longrightarrow> R w (world_of out)"
    and tgs: "\<And>w out. Extractor_tags net b w = Some out \<Longrightarrow> R w (world_of out)"
    and run: "enhance_post unescape net b data w = Some out"
  shows "R w (world_of out)"
proof (cases "\<exists>e. utc_timestamp data ''date_gmt'' = Inl e \<or> utc_timestamp data ''modified_gmt'' = Inl e
      \<or> rendered unescape data ''title'' = Inl e \<or> slug_of data = Inl e")
  case True
  with run have "world_of out = w"
    by (auto simp: enhance_post_def split: sum.splits)
  then show ?thesis by (simp add: refl)
next
  case False
  show ?thesis
  proof (cases "resolve_names (Extractor_categories net b) data ''categories'' w")
    case None
    with run False show ?thesis by (auto simp: enhance_post_def split: sum.splits)
  next
    case (Some o1)
    have 1: "R w (world_of o1)" using refl trans cats Some by (rule resolve_names_rel)
    show ?thesis
    proof (cases o1)
      case (Raises e w1)
      with run Some False have "world_of out = w1"
        by (auto simp: enhance_post_def split: sum.splits)
      with 1 Raises show ?thesis by simp
    next
      case (Returns cs w1)
      show ?thesis
      proof (cases "resolve_names (Extractor_tags net b) data ''tags'' w1")
        case None
        with run Some False Returns show ?thesis
          by (auto simp: enhance_post_def split: sum.splits)
      next
        case o2: (Some o2)
        have 2: "R w1 (world_of o2)" using refl trans tgs o2 by (rule resolve_names_rel)
        from run Some False Returns o2 have "world_of out = world_of o2"
          by (auto simp: enhance_post_def split: sum.splits outcome.splits)
        with 1 2 Returns show ?thesis using trans by auto
      qed
    qed
  qed
qed

lemma enhance_post_extractor_only:
  assumes "enhance_post unescape net b data w = Some out"
  shows "extractor_only w (world_of out)"
  using extractor_only_refl extractor_only_trans Extractor_categories_extractor_only
    Extractor_tags_extractor_only assms
  by (rule enhance_post_rel [where R = extractor_only])

subsection \<open>What \<^verbatim>\<open>add_post\<close> does\<close>

lemma add_post_Returns:
  assumes "add_post b post w = Returns () w'"
  shows "\<exists>d fs1 fs2.
      (posts_directory_memo w = Some d \<and> fs1 = files w
        \<or> posts_directory_memo w = None \<and> d = b @ [''content'', ''posts'']
            \<and> mkdir_parents (files w) d = Inr fs1)
      \<and> mkdir_parents fs1 (truediv d (slug post)) = Inr fs2
      \<and> write_text fs2 (truediv d (slug post) @ [''index.md'']) (md post) = Inr (files w')
      \<and> w' = w\<lparr>files := files w', posts_directory_memo := Some d\<rparr>"
proof (cases "posts_directory_memo w")
  case None
  with assms show ?thesis
    by (auto simp: add_post_def posts_directory_def Let_def split: sum.splits)
next
  case (Some d)
  with assms have "\<exists>fs2. mkdir_parents (files w) (truediv d (slug post)) = Inr fs2
      \<and> write_text fs2 (truediv d (slug post) @ [''index.md'']) (md post) = Inr (files w')
      \<and> w' = w\<lparr>files := files w'\<rparr>"
    by (auto simp: add_post_def posts_directory_def Let_def split: sum.splits)
  then obtain fs2 where "mkdir_parents (files w) (truediv d (slug post)) = Inr fs2"
      "write_text fs2 (truediv d (slug post) @ [''index.md'']) (md post) = Inr (files w')"
      "w' = w\<lparr>files := files w'\<rparr>" by blast
  moreover from this(3) Some have "w' = w\<lparr>files := files w', posts_directory_memo := Some d\<rparr>"
    by (metis (full_types) world.surjective world.update_convs(2) world.update_convs(6) world.select_convs(6))
  ultimately show ?thesis using Some by blast
qed

lemma add_post_kept: "kept (files w) (files (world_of (add_post b post w)))"
proof -
  have mk: "\<And>fs p fs'. mkdir_parents fs p = Inr fs' \<Longrightarrow> kept fs fs'"
    using mkdir_parents_Inr grown_kept by blast
  have pd: "\<And>d w1. posts_directory b w = Returns d w1 \<Longrightarrow> kept (files w) (files w1)"
    by (auto simp: posts_directory_def Let_def kept_refl mk split: option.splits sum.splits)
  show ?thesis
  proof (cases "posts_directory b w")
    case (Raises e w1)
    then have "w1 = w"
      by (auto simp: posts_directory_def Let_def split: option.splits sum.splits)
    with Raises show ?thesis by (simp add: add_post_def kept_refl)
  next
    case (Returns d w1)
    note k1 = pd [OF Returns]
    show ?thesis
    proof (cases "mkdir_parents (files w1) (truediv d (slug post))")
      case (Inl e)
      with Returns k1 show ?thesis by (simp add: add_post_def Let_def)
    next
      case (Inr fs2)
      have k2: "kept (files w) fs2"
        using k1 mk [OF Inr] by (rule kept_trans)
      show ?thesis
      proof (cases "write_text fs2 (truediv (truediv d (slug post)) ''index.md'') (md post)")
        case (Inl e)
        with Returns Inr k2 show ?thesis by (simp add: add_post_def Let_def)
      next
        case fs3: (Inr fs3)
        have "kept fs2 fs3" using fs3 by (rule write_text_kept)
        with k2 have "kept (files w) fs3" by (rule kept_trans)
        with Returns Inr fs3 show ?thesis by (simp add: add_post_def Let_def)
      qed
    qed
  qed
qed

subsection \<open>What \<^verbatim>\<open>add_post\<close> leaves on the filesystem\<close>

lemma grown_outside: "grown p a b \<Longrightarrow> length p < length q \<Longrightarrow> b q = a q"
  unfolding grown_def by (metis length_take min.strict_boundedE nat_less_le)

lemma snoc_neq_self: "p @ [x] \<noteq> p"
  by simp

lemma node_at_upd_other: "q \<noteq> p \<Longrightarrow> node_at (fs(p \<mapsto> n)) q = node_at fs q"
  by (simp add: node_at_def)

lemma is_dir_upd_other: "q \<noteq> p \<Longrightarrow> is_dir (fs(p \<mapsto> n)) q = is_dir fs q"
  by (simp add: is_dir_def node_at_upd_other)

lemma add_post_effect:
  assumes name: "plain_name (slug post)" and con: "constructor_of b w"
    and tr: "tree (files w)" and run: "add_post b post w = Returns () w'"
  shows "(\<forall>k. is_dir (files w') (take k (post_directory b (slug post))))
    \<and> files w' (index_file b (slug post)) = Some (File (md post))
    \<and> kept (files w) (files w') \<and> tree (files w')
    \<and> posts_directory_memo w' = Some (b @ [''content'', ''posts''])"
proof -
  let ?dir = "post_directory b (slug post)"
  from add_post_Returns [OF run] obtain d fs1 fs2 where
    first: "posts_directory_memo w = Some d \<and> fs1 = files w
        \<or> posts_directory_memo w = None \<and> d = b @ [''content'', ''posts'']
            \<and> mkdir_parents (files w) d = Inr fs1"
    and mk: "mkdir_parents fs1 (truediv d (slug post)) = Inr fs2"
    and wr: "write_text fs2 (truediv d (slug post) @ [''index.md'']) (md post) = Inr (files w')"
    and w': "w' = w\<lparr>files := files w', posts_directory_memo := Some d\<rparr>"
    by blast
  have d: "d = b @ [''content'', ''posts'']"
    using first con by (auto simp: constructor_of_def)
  have path: "truediv d (slug post) = ?dir"
    using name by (simp add: truediv_plain d post_directory_def)
  have t1: "tree fs1" using first tr mkdir_parents_tree by blast
  have t2: "tree fs2" using t1 mk by (rule mkdir_parents_tree)
  have t3: "tree (files w')" using t2 wr by (rule write_text_tree)
  have f: "files w' = fs2(?dir @ [''index.md''] \<mapsto> File (md post))"
    using write_text_Inr(1) [OF wr] path by simp
  have "is_dir fs2 ?dir" using mkdir_parents_Inr [OF mk] path by simp
  then have "is_dir (files w') ?dir"
    by (subst f) (simp add: is_dir_upd_other)
  then have 1: "\<forall>k. is_dir (files w') (take k ?dir)"
    using t3 tree_prefixes by blast
  have 2: "files w' (index_file b (slug post)) = Some (File (md post))"
    by (subst f) (simp add: index_file_def)
  have 3: "kept (files w) (files w')" using add_post_kept [of w b post] run by simp
  have 4: "posts_directory_memo w' = Some (b @ [''content'', ''posts''])"
    by (subst w') (simp add: d)
  show ?thesis using 1 2 3 t3 4 by blast
qed

lemma add_post_again:
  assumes tr: "tree (files w)" and run: "add_post b p1 w = Returns () w1"
    and same: "slug p2 = slug p1"
  shows "\<exists>d ix. posts_directory_memo w1 = Some d \<and> ix = truediv d (slug p1) @ [''index.md'']
    \<and> files w1 ix = Some (File (md p1))
    \<and> add_post b p2 w1 = Returns () (w1\<lparr>files := (files w1)(ix \<mapsto> File (md p2))\<rparr>)"
proof -
  from add_post_Returns [OF run] obtain d fs1 fs2 where
    first: "posts_directory_memo w = Some d \<and> fs1 = files w
        \<or> posts_directory_memo w = None \<and> d = b @ [''content'', ''posts'']
            \<and> mkdir_parents (files w) d = Inr fs1"
    and mk: "mkdir_parents fs1 (truediv d (slug p1)) = Inr fs2"
    and wr: "write_text fs2 (truediv d (slug p1) @ [''index.md'']) (md p1) = Inr (files w1)"
    and w1: "w1 = w\<lparr>files := files w1, posts_directory_memo := Some d\<rparr>"
    by blast
  let ?dir = "truediv d (slug p1)"
  let ?ix = "?dir @ [''index.md'']"
  have memo: "posts_directory_memo w1 = Some d" by (subst w1) simp
  have t1: "tree fs1" using first tr mkdir_parents_tree by blast
  have t2: "tree fs2" using t1 mk by (rule mkdir_parents_tree)
  have t3: "tree (files w1)" using t2 wr by (rule write_text_tree)
  have f: "files w1 = fs2(?ix \<mapsto> File (md p1))" using write_text_Inr(1) [OF wr] .
  have nul: "\<not> has_nul ?dir" using mkdir_parents_Inr [OF mk] by simp
  have "is_dir fs2 ?dir" using mkdir_parents_Inr [OF mk] by simp
  then have dir: "is_dir (files w1) ?dir" by (subst f) (simp add: is_dir_upd_other)
  then have pdir: "is_dir (files w1) (parent ?dir)" using t3 tree_parent_dir by blast
  have m2: "mkdir_parents (files w1) ?dir = Inr (files w1)"
    using dir pdir nul by (rule mkdir_parents_present)
  have ix: "files w1 ?ix = Some (File (md p1))" by (subst f) simp
  then have "node_at (files w1) ?ix \<noteq> Some Dir" by (simp add: node_at_def)
  then have w2: "write_text (files w1) ?ix (md p2) = Inr ((files w1)(?ix \<mapsto> File (md p2)))"
    using nul dir by (intro write_text_ok) simp_all
  have "add_post b p2 w1 = Returns () (w1\<lparr>files := (files w1)(?ix \<mapsto> File (md p2))\<rparr>)"
    using memo m2 w2 same by (simp add: add_post_def posts_directory_def)
  with ix memo show ?thesis by blast
qed

lemma no_file_on_take: "no_file_on fs p \<Longrightarrow> no_file_on fs (take k p)"
  unfolding no_file_on_def by (metis take_take)

lemma add_post_ok:
  assumes name: "plain_name (slug post)" and con: "constructor_of b w"
    and nul: "\<not> has_nul b"
    and nof: "no_file_on (files w) (post_directory b (slug post))"
    and ix: "node_at (files w) (index_file b (slug post)) \<noteq> Some Dir"
  shows "\<exists>w'. add_post b post w = Returns () w'"
proof -
  let ?std = "b @ [''content'', ''posts'']"
  let ?dir = "post_directory b (slug post)"
  let ?ix = "?dir @ [''index.md'']"
  have std: "?std = take (length b + 2) ?dir" by (simp add: post_directory_def)
  have nul_dir: "\<not> has_nul ?dir"
    using nul name by (auto simp: has_nul_def post_directory_def plain_name_def)
  have nul_std: "\<not> has_nul ?std" using nul by (auto simp: has_nul_def)
  have "\<exists>d w1. posts_directory b w = Returns d w1 \<and> d = ?std
      \<and> (files w1 = files w \<or> grown ?std (files w) (files w1))"
  proof (cases "posts_directory_memo w")
    case (Some d)
    then show ?thesis using con by (simp add: posts_directory_def constructor_of_def)
  next
    case None
    have "no_file_on (files w) ?std" by (subst std) (rule no_file_on_take [OF nof])
    then obtain fs1 where fs1: "mkdir_parents (files w) ?std = Inr fs1"
      using mkdir_parents_ok [OF nul_std] by blast
    then show ?thesis using None mkdir_parents_Inr [OF fs1]
      by (simp add: posts_directory_def Let_def)
  qed
  then obtain w1 where pd: "posts_directory b w = Returns ?std w1"
    and g1: "files w1 = files w \<or> grown ?std (files w) (files w1)" by blast
  have nof1: "no_file_on (files w1) ?dir" using g1 nof grown_no_file_on by auto
  obtain fs2 where fs2: "mkdir_parents (files w1) ?dir = Inr fs2"
    using mkdir_parents_ok [OF nul_dir nof1] by blast
  note g2 = mkdir_parents_Inr [OF fs2]
  have "files w1 ?ix = files w ?ix"
    using g1 grown_outside [of ?std "files w" "files w1" ?ix] by (auto simp: post_directory_def)
  moreover have "fs2 ?ix = files w1 ?ix"
    using g2 grown_outside [of ?dir "files w1" fs2 ?ix] by simp
  ultimately have "node_at fs2 ?ix \<noteq> Some Dir"
    using ix by (simp add: node_at_def index_file_def)
  then have wr: "write_text fs2 ?ix (md post) = Inr (fs2(?ix \<mapsto> File (md post)))"
    using nul_dir g2 by (intro write_text_ok) simp_all
  have "truediv ?std (slug post) = ?dir"
    using name by (simp add: truediv_plain post_directory_def)
  then show ?thesis using pd fs2 wr by (simp add: add_post_def)
qed

subsection \<open>The driving loop removes nothing\<close>

lemma main_kept:
  assumes "main unescape net base_url t w = Some out"
  shows "kept (files w) (files (world_of out))"
proof -
  define R where "R = (\<lambda>(a :: world) (c :: world). kept (files a) (files c))"
  have refl: "\<And>w. R w w" by (simp add: R_def kept_refl)
  have trans: "\<And>a b c. R a b \<Longrightarrow> R b c \<Longrightarrow> R a c" unfolding R_def by (rule kept_trans)
  have req: "\<And>w page. R w (log_request (page_request (base_url @ ''/wp-json/wp/v2/posts'') page) w)"
    by (simp add: R_def log_request_def kept_refl)
  have step: "\<And>x a w out. enhance_then unescape net base_url (write_post t) x a w = Some out
      \<Longrightarrow> R w (world_of out)"
  proof -
    fix x a w out
    assume e: "enhance_then unescape net base_url (write_post t) x a w = Some out"
    then obtain o1 where o1: "enhance_post unescape net base_url x w = Some o1"
      by (auto simp: enhance_then_def split: option.splits)
    have f: "files (world_of o1) = files w"
      using enhance_post_extractor_only [OF o1] extractor_only_files by blast
    show "R w (world_of out)"
    proof (cases o1)
      case (Raises e' w1)
      with e o1 have "out = Raises e' w1" by (simp add: enhance_then_def)
      with f Raises show ?thesis by (simp add: R_def kept_refl)
    next
      case (Returns p w1)
      with e o1 have "out = add_post t p w1" by (simp add: enhance_then_def write_post_def)
      with f Returns show ?thesis using add_post_kept [of w1 t p] by (simp add: R_def)
    qed
  qed
  have "R w (world_of out)"
    using refl trans req step assms [unfolded main_def get_posts_def pageWhileList_def]
    by (rule pageWhileList_from_rel)
  then show ?thesis by (simp add: R_def)
qed

lemma tree_empty: "tree Map.empty"
  by (simp add: tree_def)

lemma plain_name_hello: "plain_name ''hello-world''"
  by (simp add: plain_name_def)

lemma hello_written:
  assumes "files w = Map.empty" and "posts_directory_memo w = None"
  shows "add_post [''out''] hello_post w =
     Returns () (w\<lparr>files := hello_files,
        posts_directory_memo := Some [''out'', ''content'', ''posts'']\<rparr>)"
proof -
  have s: "slug hello_post = ''hello-world''" by (simp add: hello_post_def)
  have 1: "mkdir_parents Map.empty [''out'', ''content'', ''posts''] =
      Inr [[''out''] \<mapsto> Dir, [''out'', ''content''] \<mapsto> Dir,
           [''out'', ''content'', ''posts''] \<mapsto> Dir]"
    by (simp add: mkdir_parents.simps os_mkdir_def mkdir_exist_ok_def has_nul_def parent_def
        is_root_def node_at_def)
  have 2: "mkdir_parents [[''out''] \<mapsto> Dir, [''out'', ''content''] \<mapsto> Dir,
           [''out'', ''content'', ''posts''] \<mapsto> Dir]
         [''out'', ''content'', ''posts'', ''hello-world''] =
      Inr [[''out''] \<mapsto> Dir, [''out'', ''content''] \<mapsto> Dir,
           [''out'', ''content'', ''posts''] \<mapsto> Dir,
           [''out'', ''content'', ''posts'', ''hello-world''] \<mapsto> Dir]"
    by (simp add: mkdir_parents.simps os_mkdir_def has_nul_def parent_def
        is_root_def node_at_def)
  have 3: "write_text [[''out''] \<mapsto> Dir, [''out'', ''content''] \<mapsto> Dir,
           [''out'', ''content'', ''posts''] \<mapsto> Dir,
           [''out'', ''content'', ''posts'', ''hello-world''] \<mapsto> Dir]
         [''out'', ''content'', ''posts'', ''hello-world'', ''index.md''] (md hello_post) =
      Inr hello_files"
    by (simp add: write_text_def has_nul_def parent_def is_root_def node_at_def hello_files_def)
  show ?thesis
    using assms 1 2 3
    by (simp add: add_post_def posts_directory_def Let_def s truediv_plain plain_name_hello)
qed

subsection \<open>C6: the file writer\<close>

text \<open>
  C6. The slug of the post is one valid path segment, the \<^verbatim>\<open>Constructor\<close> is the one
  of the base path and the filesystem is a tree. Then (1) whenever \<^verbatim>\<open>add_post\<close>
  returns, \<^verbatim>\<open><base>/content/posts/<slug>\<close> and every path above it is a directory,
  \<^verbatim>\<open>index.md\<close> in it is a file holding the rendered document, whatever was at that
  path before, and nothing else was removed; (2) \<^verbatim>\<open>add_post\<close> does return when the
  base path has no NUL, no regular file stands on the way to the directory and
  \<^verbatim>\<open>index.md\<close> is not a directory, in particular when \<^verbatim>\<open>index.md\<close> is a file already;
  (3) after it returned, \<^verbatim>\<open>add_post\<close> of any post with the same slug returns too, and
  then \<^verbatim>\<open>index.md\<close> holds the rendered document of that second post.
\<close>

theorem add_post_writes_index_md:
  assumes "plain_name (slug post)" and "constructor_of base_path w" and "tree (files w)"
  shows "(\<forall>w'. add_post base_path post w = Returns () w' \<longrightarrow>
            (\<forall>k. is_dir (files w') (take k (post_directory base_path (slug post))))
            \<and> files w' (index_file base_path (slug post)) = Some (File (md post))
            \<and> kept (files w) (files w'))
    \<and> (\<not> has_nul base_path
          \<and> no_file_on (files w) (post_directory base_path (slug post))
          \<and> node_at (files w) (index_file base_path (slug post)) \<noteq> Some Dir
        \<longrightarrow> (\<exists>w'. add_post base_path post w = Returns () w'))
    \<and> (\<forall>post' w1. slug post' = slug post \<and> add_post base_path post w = Returns () w1 \<longrightarrow>
          (\<exists>w2. add_post base_path post' w1 = Returns () w2
             \<and> files w2 (index_file base_path (slug post)) = Some (File (md post'))))"
proof (intro conjI allI impI)
  fix w' k
  assume run: "add_post base_path post w = Returns () w'"
  note e = add_post_effect [OF assms run]
  show "is_dir (files w') (take k (post_directory base_path (slug post)))"
    using e by blast
next
  fix w'
  assume run: "add_post base_path post w = Returns () w'"
  note e = add_post_effect [OF assms run]
  show "files w' (index_file base_path (slug post)) = Some (File (md post))"
    using e by blast
  show "kept (files w) (files w')" using e by blast
next
  assume "\<not> has_nul base_path
          \<and> no_file_on (files w) (post_directory base_path (slug post))
          \<and> node_at (files w) (index_file base_path (slug post)) \<noteq> Some Dir"
  then show "\<exists>w'. add_post base_path post w = Returns () w'"
    using add_post_ok [OF assms(1,2)] by blast
next
  fix post' :: Post and w1
  assume a: "slug post' = slug post \<and> add_post base_path post w = Returns () w1"
  then have run: "add_post base_path post w = Returns () w1" and same: "slug post' = slug post"
    by simp_all
  from add_post_effect [OF assms run]
  have memo: "posts_directory_memo w1 = Some (base_path @ [''content'', ''posts''])" by blast
  from add_post_again [OF assms(3) run same] memo
  have "add_post base_path post' w1 =
      Returns () (w1\<lparr>files := (files w1)(truediv (base_path @ [''content'', ''posts'']) (slug post)
          @ [''index.md''] \<mapsto> File (md post'))\<rparr>)"
    by auto
  moreover have "truediv (base_path @ [''content'', ''posts'']) (slug post) @ [''index.md'']
      = index_file base_path (slug post)"
    using assms(1) by (simp add: truediv_plain index_file_def post_directory_def)
  ultimately show "\<exists>w2. add_post base_path post' w1 = Returns () w2
             \<and> files w2 (index_file base_path (slug post)) = Some (File (md post'))"
    by simp
qed

theorem add_post_writes_index_md_witness:
  "add_post [''out''] hello_post (fresh_world Map.empty) =
     Returns () ((fresh_world Map.empty)\<lparr>files := hello_files,
        posts_directory_memo := Some [''out'', ''content'', ''posts'']\<rparr>)
   \<and> is_dir hello_files [''out'', ''content'', ''posts'', ''hello-world'']
   \<and> is_dir hello_files [''out'', ''content'']
   \<and> hello_files [''out'', ''content'', ''posts'', ''hello-world'', ''index.md'']
        = Some (File (md hello_post))"
proof -
  let ?w = "fresh_world Map.empty"
  let ?w' = "?w\<lparr>files := hello_files, posts_directory_memo := Some [''out'', ''content'', ''posts'']\<rparr>"
  have run: "add_post [''out''] hello_post ?w = Returns () ?w'"
    by (rule hello_written) (simp_all add: fresh_world_def)
  have name: "plain_name (slug hello_post)" by (simp add: hello_post_def plain_name_def)
  have con: "constructor_of [''out''] ?w" by (simp add: constructor_of_def fresh_world_def)
  have tr: "tree (files ?w)" by (simp add: fresh_world_def tree_empty)
  from add_post_writes_index_md [OF name con tr] run
  have a: "\<forall>k. is_dir (files ?w') (take k (post_directory [''out''] (slug hello_post)))"
    and b: "files ?w' (index_file [''out''] (slug hello_post)) = Some (File (md hello_post))"
    by blast+
  have d: "post_directory [''out''] (slug hello_post) = [''out'', ''content'', ''posts'', ''hello-world'']"
    by (simp add: post_directory_def hello_post_def)
  from a have "is_dir (files ?w') (take 4 (post_directory [''out''] (slug hello_post)))"
    "is_dir (files ?w') (take 2 (post_directory [''out''] (slug hello_post)))" by blast+
  then have "is_dir hello_files [''out'', ''content'', ''posts'', ''hello-world'']"
    "is_dir hello_files [''out'', ''content'']"
    by (simp_all add: d)
  moreover from b have "hello_files [''out'', ''content'', ''posts'', ''hello-world'', ''index.md'']
        = Some (File (md hello_post))"
    by (simp add: index_file_def d)
  ultimately show ?thesis using run by blast
qed

subsection \<open>C9: writing twice, and what a second run leaves\<close>

text \<open>
  C9. On a filesystem that is a tree, when \<^verbatim>\<open>add_post\<close> of a post has returned,
  \<^verbatim>\<open>add_post\<close> of the same post returns again and leaves the world exactly as the
  first call left it: the file is overwritten with the same text. And no run of the
  driving loop, on whatever the server answers, and no \<^verbatim>\<open>add_post\<close> removes anything:
  every directory that was there is there after, and every file that was there is a
  file after (\<open>kept\<close>). So posts that the server no longer lists keep their files.
\<close>

theorem add_post_idempotent_and_nothing_removed:
  "(tree (files w) \<and> add_post base_path post w = Returns () w1 \<longrightarrow>
       add_post base_path post w1 = Returns () w1)
   \<and> (\<forall>out. main unescape net base_url base_path w = Some out \<longrightarrow>
         kept (files w) (files (world_of out)))
   \<and> kept (files w) (files (world_of (add_post base_path post w)))"
proof (intro conjI allI impI)
  assume a: "tree (files w) \<and> add_post base_path post w = Returns () w1"
  then have tr: "tree (files w)" and run: "add_post base_path post w = Returns () w1"
    by simp_all
  from add_post_again [OF tr run refl] obtain ix where
    ix: "files w1 ix = Some (File (md post))"
    and again: "add_post base_path post w1 =
        Returns () (w1\<lparr>files := (files w1)(ix \<mapsto> File (md post))\<rparr>)"
    by blast
  from ix have "(files w1)(ix \<mapsto> File (md post)) = files w1" by (rule map_upd_triv)
  with again show "add_post base_path post w1 = Returns () w1" by simp
next
  fix out
  assume "main unescape net base_url base_path w = Some out"
  then show "kept (files w) (files (world_of out))" by (rule main_kept)
next
  show "kept (files w) (files (world_of (add_post base_path post w)))"
    by (rule add_post_kept)
qed

theorem add_post_idempotent_and_nothing_removed_witness:
  "add_post [''out''] hello_post
      ((fresh_world Map.empty)\<lparr>files := hello_files,
        posts_directory_memo := Some [''out'', ''content'', ''posts'']\<rparr>)
    = Returns () ((fresh_world Map.empty)\<lparr>files := hello_files,
        posts_directory_memo := Some [''out'', ''content'', ''posts'']\<rparr>)"
proof -
  let ?w = "fresh_world Map.empty"
  have run: "add_post [''out''] hello_post ?w =
      Returns () (?w\<lparr>files := hello_files,
        posts_directory_memo := Some [''out'', ''content'', ''posts'']\<rparr>)"
    by (rule hello_written) (simp_all add: fresh_world_def)
  have tr: "tree (files ?w)" by (simp add: fresh_world_def tree_empty)
  show ?thesis
    using add_post_idempotent_and_nothing_removed [of ?w "[''out'']" hello_post
        "?w\<lparr>files := hello_files, posts_directory_memo := Some [''out'', ''content'', ''posts'']\<rparr>"
        amp_unescape blog_net blog_url] tr run
    by blast
qed

subsection \<open>An ID the reference dictionary does not hold\<close>

lemma for_each_append:
  "for_each consume xs acc w = Some (Returns acc' w') \<Longrightarrow>
   for_each consume (xs @ ys) acc w = for_each consume ys acc' w'"
proof (induction xs arbitrary: acc w)
  case Nil
  then show ?case by simp
next
  case (Cons x xs)
  show ?case
  proof (cases "consume x acc w")
    case None
    with Cons.prems show ?thesis by simp
  next
    case (Some o1)
    show ?thesis
    proof (cases o1)
      case (Returns a1 w1)
      with Some Cons.prems have "for_each consume xs a1 w1 = Some (Returns acc' w')" by simp
      then have "for_each consume (xs @ ys) a1 w1 = for_each consume ys acc' w'"
        by (rule Cons.IH)
      with Some Returns show ?thesis by simp
    next
      case (Raises e w1)
      with Some Cons.prems show ?thesis by simp
    qed
  qed
qed

lemma for_each_raises_at:
  assumes "for_each consume good acc w = Some (Returns acc' w')"
    and "consume bad acc' w' = Some (Raises e w'')"
  shows "for_each consume (good @ bad # rest) acc w = Some (Raises e w'')"
  using for_each_append [OF assms(1), of "bad # rest"] assms(2) by simp

lemma resolve_name_miss:
  assumes "memo w = Some (Returns d w')" and "dict_getitem d i = Inl (KeyError i)"
  shows "resolve_name memo i acc w = Some (Raises (KeyError i) w')"
  using assms by (simp add: resolve_name_def)

lemma resolve_names_missing:
  assumes first: "memo w = Some (Returns d w1)"
    and again: "memo w1 = Some (Returns d w1)"
    and field: "subscript data k = Inr (JList ids)"
    and miss: "first_missing d ids i"
  shows "resolve_names memo data k w = Some (Raises (KeyError i) w1)"
proof -
  from miss obtain before after where
    ids: "ids = before @ i # after"
    and named: "list_all (\<lambda>j. name_in d j \<noteq> None) before"
    and absent: "dict_getitem d i = Inl (KeyError i)"
    unfolding first_missing_def by blast
  have "for_each (resolve_name memo) (before @ i # after) [] w = Some (Raises (KeyError i) w1)"
  proof (cases before)
    case Nil
    then show ?thesis using resolve_name_miss [of memo w d w1 i "[]"] first absent by simp
  next
    case (Cons j js)
    then obtain n where n: "name_in d j = Some n" using named by auto
    have 1: "resolve_name memo j [] w = Some (Returns [n] w1)"
      using resolve_name_hit [of memo w d w1 j n "[]"] first n by simp
    have "\<forall>i \<in> set js. name_in d i \<noteq> None" using named Cons by (simp add: list_all_iff)
    then have 2: "for_each (resolve_name memo) js [n] w1 =
        Some (Returns ([n] @ map (\<lambda>i. the (name_in d i)) js) w1)"
      using for_each_resolve [of memo w1 d js "[n]"] again by blast
    have "for_each (resolve_name memo) (j # js) [] w =
        Some (Returns ([n] @ map (\<lambda>i. the (name_in d i)) js) w1)"
      using 1 2 by simp
    then show ?thesis
      unfolding Cons
      using resolve_name_miss [of memo w1 d w1 i] again absent
      by (intro for_each_raises_at) auto
  qed
  then show ?thesis using field ids by (simp add: resolve_names_def)
qed

lemma enhance_post_missing_category:
  assumes "utc_timestamp data ''date_gmt'' = Inr pub"
    and "utc_timestamp data ''modified_gmt'' = Inr modi"
    and "rendered unescape data ''title'' = Inr ti"
    and "slug_of data = Inr sl"
    and field: "subscript data ''categories'' = Inr (JList ids)"
    and dict: "Extractor_categories net base_url w = Some (Returns d w')"
    and miss: "first_missing d ids i"
  shows "enhance_post unescape net base_url data w = Some (Raises (KeyError i) w')"
proof -
  have "resolve_names (Extractor_categories net base_url) data ''categories'' w =
      Some (Raises (KeyError i) w')"
    using dict Extractor_categories_again(1) [OF dict] field miss
    by (rule resolve_names_missing)
  then show ?thesis using assms(1-4) by (simp add: enhance_post_def)
qed

lemma enhance_post_missing_tag:
  assumes "utc_timestamp data ''date_gmt'' = Inr pub"
    and "utc_timestamp data ''modified_gmt'' = Inr modi"
    and "rendered unescape data ''title'' = Inr ti"
    and "slug_of data = Inr sl"
    and cats: "resolve_names (Extractor_categories net base_url) data ''categories'' w =
        Some (Returns cs w1)"
    and field: "subscript data ''tags'' = Inr (JList ids)"
    and dict: "Extractor_tags net base_url w1 = Some (Returns d w')"
    and miss: "first_missing d ids i"
  shows "enhance_post unescape net base_url data w = Some (Raises (KeyError i) w')"
proof -
  have "resolve_names (Extractor_tags net base_url) data ''tags'' w1 =
      Some (Raises (KeyError i) w')"
    using dict Extractor_tags_again(1) [OF dict] field miss
    by (rule resolve_names_missing)
  then show ?thesis using assms(1-4) cats by (simp add: enhance_post_def)
qed

lemma orphan_raw_fields:
  "utc_timestamp orphan_raw ''date_gmt'' =
     Inr \<lparr>year = 2020, month = 3, day = 4, hour = 5, minute = 6, second = 7,
          microsecond = 0, tzinfo = Some pytz_UTC\<rparr>"
  "utc_timestamp orphan_raw ''modified_gmt'' =
     Inr \<lparr>year = 2020, month = 3, day = 4, hour = 5, minute = 6, second = 7,
          microsecond = 0, tzinfo = Some pytz_UTC\<rparr>"
  "rendered amp_unescape orphan_raw ''title'' = Inr ''Orphan''"
  "slug_of orphan_raw = Inr ''orphan''"
  "subscript orphan_raw ''categories'' = Inr (JList [JNum 9])"
  by (simp_all add: utc_timestamp_def orphan_raw_def parser_defs rendered_def slug_of_def
      amp_unescape_Nil amp_unescape_other)

lemma first_missing_sample: "first_missing sample_categories [JNum 9] (JNum 9)"
proof -
  have "[JNum 9] = [] @ JNum 9 # []
      \<and> list_all (\<lambda>j. name_in sample_categories j \<noteq> None) []
      \<and> dict_getitem sample_categories (JNum 9) = Inl (KeyError (JNum 9))"
    by (simp add: dict_getitem_def sample_categories_def)
  then show ?thesis unfolding first_missing_def by blast
qed

text \<open>The sample blog's first record, normalized and written by the driving loop.\<close>

lemma hello_migrated:
  assumes "categories_memo w = None" and "files w = Map.empty"
    and "posts_directory_memo w = None"
  shows "for_each (migrate_one amp_unescape blog_net blog_url [''out'']) [hello_raw] () w =
    Some (Returns ()
      (w\<lparr>requests := requests w @
            [page_request (blog_url @ ''/wp-json/wp/v2/categories'') 1,
             page_request (blog_url @ ''/wp-json/wp/v2/categories'') 2],
         files := hello_files,
         categories_memo := Some sample_categories,
         posts_directory_memo := Some [''out'', ''content'', ''posts'']\<rparr>))"
proof -
  let ?w1 = "w\<lparr>requests := requests w @
            [page_request (blog_url @ ''/wp-json/wp/v2/categories'') 1,
             page_request (blog_url @ ''/wp-json/wp/v2/categories'') 2],
          categories_memo := Some sample_categories\<rparr>"
  have "add_post [''out''] hello_post ?w1 =
      Returns () (?w1\<lparr>files := hello_files,
        posts_directory_memo := Some [''out'', ''content'', ''posts'']\<rparr>)"
    by (rule hello_written) (simp_all add: assms)
  then show ?thesis
    using hello_run [OF assms(1)]
    by (simp add: migrate_one_def enhance_then_def write_post_def)
qed

subsection \<open>C4: a missing category or tag ID aborts the run\<close>

text \<open>
  C4. A raw post record has well-formed timestamps, title and slug, and an ID in its
  list of categories is not a key of the dictionary \<^verbatim>\<open>Extractor.categories\<close> gives; or
  all its categories resolve and an ID in its list of tags is not a key of the
  dictionary \<^verbatim>\<open>Extractor.tags\<close> gives (\<open>i\<close> is the first such ID). The record stands on a
  page of the posts endpoint after the records \<open>good\<close>, which the loop has normalized
  and written. Then \<^verbatim>\<open>enhance_post\<close> raises \<^verbatim>\<open>KeyError\<close> of that ID, the driving loop
  ends with that exception, and the filesystem it leaves is the one the earlier posts
  left: their files are there, nothing was written for this record, and the records
  after it are never touched.
\<close>

theorem missing_reference_aborts_run:
  assumes fields: "utc_timestamp data ''date_gmt'' = Inr pub"
      "utc_timestamp data ''modified_gmt'' = Inr modi"
      "rendered unescape data ''title'' = Inr ti"
      "slug_of data = Inr sl"
    and missing:
      "(\<exists>ids d. subscript data ''categories'' = Inr (JList ids)
           \<and> Extractor_categories net base_url w = Some (Returns d w')
           \<and> first_missing d ids i)
       \<or> (\<exists>cs w1 ids d.
             resolve_names (Extractor_categories net base_url) data ''categories'' w =
               Some (Returns cs w1)
           \<and> subscript data ''tags'' = Inr (JList ids)
           \<and> Extractor_tags net base_url w1 = Some (Returns d w')
           \<and> first_missing d ids i)"
    and page: "net (requests w0) (page_request (base_url @ ''/wp-json/wp/v2/posts'') page) = Inr r"
      "json_of r = Inr (JList (good @ data # rest))"
    and earlier: "for_each (migrate_one unescape net base_url target_dir) good ()
        (log_request (page_request (base_url @ ''/wp-json/wp/v2/posts'') page) w0) =
          Some (Returns () w)"
  shows "enhance_post unescape net base_url data w = Some (Raises (KeyError i) w')
    \<and> files w' = files w
    \<and> pageWhileList_from net (migrate_one unescape net base_url target_dir)
        (base_url @ ''/wp-json/wp/v2/posts'') default_base_params page () w0 =
          Some (Raises (KeyError i) w')
    \<and> (page = 1 \<longrightarrow>
          main unescape net base_url target_dir w0 = Some (Raises (KeyError i) w'))"
proof -
  have e: "enhance_post unescape net base_url data w = Some (Raises (KeyError i) w')"
    using missing
  proof
    assume "\<exists>ids d. subscript data ''categories'' = Inr (JList ids)
           \<and> Extractor_categories net base_url w = Some (Returns d w')
           \<and> first_missing d ids i"
    then show ?thesis using enhance_post_missing_category [OF fields] by blast
  next
    assume "\<exists>cs w1 ids d.
             resolve_names (Extractor_categories net base_url) data ''categories'' w =
               Some (Returns cs w1)
           \<and> subscript data ''tags'' = Inr (JList ids)
           \<and> Extractor_tags net base_url w1 = Some (Returns d w')
           \<and> first_missing d ids i"
    then show ?thesis using enhance_post_missing_tag [OF fields] by blast
  qed
  have f: "files w' = files w"
    using enhance_post_extractor_only [OF e] extractor_only_files by fastforce
  have m: "migrate_one unescape net base_url target_dir data () w = Some (Raises (KeyError i) w')"
    using e by (simp add: migrate_one_def enhance_then_def)
  have l: "for_each (migrate_one unescape net base_url target_dir) (good @ data # rest) ()
        (log_request (page_request (base_url @ ''/wp-json/wp/v2/posts'') page) w0) =
      Some (Raises (KeyError i) w')"
    using earlier m by (rule for_each_raises_at)
  have p: "pageWhileList_from net (migrate_one unescape net base_url target_dir)
        (base_url @ ''/wp-json/wp/v2/posts'') default_base_params page () w0 =
          Some (Raises (KeyError i) w')"
    using page(1) page(2) _ l by (rule pageWhileList_from_raises) simp
  have "page = 1 \<longrightarrow>
      main unescape net base_url target_dir w0 = Some (Raises (KeyError i) w')"
    using p by (auto simp: main_def get_posts_def pageWhileList_def migrate_one_def)
  with e f p show ?thesis by blast
qed

theorem missing_reference_aborts_run_witness:
  "main amp_unescape blog_net blog_url [''out''] (fresh_world Map.empty) =
     Some (Raises (KeyError (JNum 9))
       \<lparr>requests = [page_request (blog_url @ ''/wp-json/wp/v2/posts'') 1,
                    page_request (blog_url @ ''/wp-json/wp/v2/categories'') 1,
                    page_request (blog_url @ ''/wp-json/wp/v2/categories'') 2],
        files = hello_files, categories_memo = Some sample_categories, tags_memo = None,
        posts_memo = None, posts_directory_memo = Some [''out'', ''content'', ''posts'']\<rparr>)
   \<and> hello_files [''out'', ''content'', ''posts'', ''hello-world'', ''index.md'']
        = Some (File (md hello_post))
   \<and> hello_files [''out'', ''content'', ''posts'', ''orphan''] = None
   \<and> hello_files [''out'', ''content'', ''posts'', ''orphan'', ''index.md''] = None"
proof -
  let ?u = "blog_url @ ''/wp-json/wp/v2/posts''"
  let ?start = "fresh_world Map.empty"
  let ?paged = "log_request (page_request ?u 1) ?start"
  let ?done = "\<lparr>requests = [page_request ?u 1,
                    page_request (blog_url @ ''/wp-json/wp/v2/categories'') 1,
                    page_request (blog_url @ ''/wp-json/wp/v2/categories'') 2],
        files = hello_files, categories_memo = Some sample_categories, tags_memo = None,
        posts_memo = None, posts_directory_memo = Some [''out'', ''content'', ''posts'']\<rparr>"
  have page: "blog_net (requests ?start) (page_request ?u 1) =
      Inr \<lparr>status_code = 200, body = Some (JList [hello_raw, orphan_raw])\<rparr>"
    by (simp add: blog_net_def page_request_def)
  have body: "json_of \<lparr>status_code = 200, body = Some (JList [hello_raw, orphan_raw])\<rparr> =
      Inr (JList ([hello_raw] @ orphan_raw # []))"
    by (simp add: json_of_def)
  have "for_each (migrate_one amp_unescape blog_net blog_url [''out'']) [hello_raw] () ?paged =
    Some (Returns ()
      (?paged\<lparr>requests := requests ?paged @
            [page_request (blog_url @ ''/wp-json/wp/v2/categories'') 1,
             page_request (blog_url @ ''/wp-json/wp/v2/categories'') 2],
         files := hello_files,
         categories_memo := Some sample_categories,
         posts_directory_memo := Some [''out'', ''content'', ''posts'']\<rparr>))"
    by (rule hello_migrated) (simp_all add: log_request_def fresh_world_def)
  then have earlier:
    "for_each (migrate_one amp_unescape blog_net blog_url [''out'']) [hello_raw] () ?paged =
      Some (Returns () ?done)"
    by (simp add: log_request_def fresh_world_def)
  have memo: "Extractor_categories blog_net blog_url ?done = Some (Returns sample_categories ?done)"
    by (simp add: Extractor_categories_def)
  have missing:
      "(\<exists>ids d. subscript orphan_raw ''categories'' = Inr (JList ids)
           \<and> Extractor_categories blog_net blog_url ?done = Some (Returns d ?done)
           \<and> first_missing d ids (JNum 9))
       \<or> (\<exists>cs w1 ids d.
             resolve_names (Extractor_categories blog_net blog_url) orphan_raw ''categories'' ?done =
               Some (Returns cs w1)
           \<and> subscript orphan_raw ''tags'' = Inr (JList ids)
           \<and> Extractor_tags blog_net blog_url w1 = Some (Returns d ?done)
           \<and> first_missing d ids (JNum 9))"
    using orphan_raw_fields(5) memo first_missing_sample by blast
  have "main amp_unescape blog_net blog_url [''out''] ?start =
      Some (Raises (KeyError (JNum 9)) ?done)"
    using missing_reference_aborts_run [OF orphan_raw_fields(1-4) missing page body earlier]
    by blast
  then show ?thesis by (simp add: hello_files_def)
qed

end
